theory Spec2Isabelle
  imports Complex_Main "HOL-Library.Multiset" "HOL-Library.Sublist" "HOL-Library.Word"
begin

section \<open>The four-lepton analysis of HZZAnalysis-Combination.ipynb\<close>

text \<open>
  The notebook streams batches of events from ROOT files, attaches a weight to the
  simulated ones, selects events by lepton charge and flavour, computes the four-lepton
  invariant mass and exports one histogram per sample category.

  Conventions of the embedding.
  \<^item> Python and NumPy floating-point numbers are modelled as exact reals: rounding,
    infinities and NaN are outside the model. The one exception is the product
    \<open>numevents*fraction\<close>, which is truncated to an integer: there the rounding of the
    product to a double decides the result, and it is modelled.
  \<^item> The integer columns \<open>lep_charge\<close> and \<open>lep_type\<close> are 32-bit, as the input files
    store them (\<open>int\<close> and \<open>unsigned int\<close>): adding their elements wraps around.
  \<^item> An awkward array of records is a list of records; a jagged column is a list of
    lists. A raised exception is a value \<open>Inl e\<close>.
  \<^item> The third-party calls the notebook makes (uproot's \<open>iterate\<close>, awkward's indexing
    and \<open>concatenate\<close>, vector's addition and \<open>.M\<close>, NumPy's \<open>histogram\<close>, ROOT's
    \<open>TH1F\<close>) are modelled by their documented behaviour.
\<close>

subsection \<open>Errors\<close>

text \<open>
  The exceptions that can leave the notebook's functions. \<open>InsufficientLeptons\<close> is the
  name used by the written specification; no function below returns it.
\<close>

datatype error =
    KeyError
  | ZeroDivisionError
  | IndexError
  | ValueError
  | FileNotFoundError
  | UnboundLocalError
  | AttributeError
  | TypeError
  | InsufficientLeptons

definition bind_err :: "error + 'a \<Rightarrow> ('a \<Rightarrow> error + 'b) \<Rightarrow> error + 'b" where
  "bind_err r f = (case r of Inl e \<Rightarrow> Inl e | Inr x \<Rightarrow> f x)"

text \<open>Running a list of fallible steps in order; the first exception ends the loop.\<close>

fun sequence_err :: "(error + 'a) list \<Rightarrow> error + 'a list" where
  "sequence_err [] = Inr []"
| "sequence_err (r # rs) =
     (case r of
        Inl e \<Rightarrow> Inl e
      | Inr x \<Rightarrow> (case sequence_err rs of Inl e \<Rightarrow> Inl e | Inr xs \<Rightarrow> Inr (x # xs)))"

subsection \<open>Data model\<close>

text \<open>One entry of the tree \<open>mini\<close>: the eleven columns that \<open>read_file\<close> requests.\<close>

record entry =
  lep_pt :: "real list"
  lep_eta :: "real list"
  lep_phi :: "real list"
  lep_E :: "real list"
  lep_charge :: "32 word list"
  lep_type :: "32 word list"
  mcWeight :: real
  scaleFactor_PILEUP :: real
  scaleFactor_ELE :: real
  scaleFactor_MUON :: real
  scaleFactor_LepTRIGGER :: real

text \<open>
  An event of a batch inside \<open>read_file\<close>: the entry plus the two fields the notebook
  adds, \<open>data['totalWeight']\<close> and \<open>data['mllll']\<close>; \<open>None\<close> while the field is absent.
\<close>

record event = entry +
  totalWeight :: "real option"
  mllll :: "real option"

definition load :: "entry \<Rightarrow> event" where
  "load r = entry.extend r \<lparr>totalWeight = None, mllll = None\<rparr>"

text \<open>One value of \<open>infofile.infos\<close>.\<close>

record info =
  DSID :: int
  xsec :: real
  sumw :: real
  red_eff :: real

type_synonym infos = "string \<rightharpoonup> info"

text \<open>The dictionary \<open>samples\<close>, in insertion order: category name and its \<open>'list'\<close>.\<close>

type_synonym samples = "(string \<times> string list) list"

definition MeV :: real where
  "MeV = 1 / 1000"

definition GeV :: real where
  "GeV = 1"

subsection \<open>Strings\<close>

text \<open>Python's \<open>sub in s\<close> on strings.\<close>

fun contains_str :: "string \<Rightarrow> string \<Rightarrow> bool" where
  "contains_str sub [] = (sub = [])"
| "contains_str sub (c # cs) = (prefix sub (c # cs) \<or> contains_str sub cs)"

fun str_nat :: "nat \<Rightarrow> string" where
  "str_nat n =
     (if n < 10 then [''0123456789'' ! n]
      else str_nat (n div 10) @ [''0123456789'' ! (n mod 10)])"

declare str_nat.simps [simp del]

text \<open>Python's \<open>str\<close> on an integer.\<close>

definition str_int :: "int \<Rightarrow> string" where
  "str_int i = (if i < 0 then CHR ''-'' # str_nat (nat (- i)) else str_nat (nat i))"

subsection \<open>Weights\<close>

text \<open>
  \<open>calc_weight(xsec_weight, events)\<close>: the product is taken from left to right, one value
  per event of the batch.
\<close>

definition calc_weight :: "real \<Rightarrow> event list \<Rightarrow> real list" where
  "calc_weight xsec_weight events =
     map (\<lambda>e. xsec_weight
               * mcWeight e
               * scaleFactor_PILEUP e
               * scaleFactor_ELE e
               * scaleFactor_MUON e
               * scaleFactor_LepTRIGGER e) events"

text \<open>Python's \<open>/\<close> on floats raises on a zero divisor.\<close>

definition py_div :: "real \<Rightarrow> real \<Rightarrow> error + real" where
  "py_div a b = (if b = 0 then Inl ZeroDivisionError else Inr (a / b))"

definition get_xsec_weight :: "infos \<Rightarrow> real \<Rightarrow> string \<Rightarrow> error + real" where
  "get_xsec_weight infos lumi sample =
     (case infos sample of
        None \<Rightarrow> Inl KeyError
      | Some info \<Rightarrow> py_div (lumi * 1000 * xsec info) (sumw info * red_eff info))"

subsection \<open>Jagged columns\<close>

text \<open>
  \<open>arr[:, i]\<close> on a jagged array: the i-th element of every row; an exception when some row
  is too short.
\<close>

definition column :: "'a list list \<Rightarrow> nat \<Rightarrow> error + 'a list" where
  "column arr i =
     (if list_all (\<lambda>row. i < length row) arr then Inr (map (\<lambda>row. row ! i) arr)
      else Inl IndexError)"

text \<open>\<open>data[flags]\<close> with a boolean array \<open>flags\<close> aligned with the batch.\<close>

definition mask_select :: "'a list \<Rightarrow> bool list \<Rightarrow> 'a list" where
  "mask_select data flags = map fst (filter snd (zip data flags))"

subsection \<open>Selection\<close>

definition cut_lep_charge :: "32 word list list \<Rightarrow> error + bool list" where
  "cut_lep_charge lc =
     bind_err (column lc 0) (\<lambda>c0.
     bind_err (column lc 1) (\<lambda>c1.
     bind_err (column lc 2) (\<lambda>c2.
     bind_err (column lc 3) (\<lambda>c3.
       Inr (map (\<lambda>s. s \<noteq> 0) (map2 (+) (map2 (+) (map2 (+) c0 c1) c2) c3))))))"

definition cut_lep_type :: "32 word list list \<Rightarrow> error + bool list" where
  "cut_lep_type lt =
     bind_err (column lt 0) (\<lambda>t0.
     bind_err (column lt 1) (\<lambda>t1.
     bind_err (column lt 2) (\<lambda>t2.
     bind_err (column lt 3) (\<lambda>t3.
       Inr (map (\<lambda>sum_lep_type. sum_lep_type \<noteq> 44 \<and> sum_lep_type \<noteq> 48 \<and> sum_lep_type \<noteq> 52)
              (map2 (+) (map2 (+) (map2 (+) t0 t1) t2) t3))))))"

text \<open>The two filtering statements of \<open>read_file\<close>, in their order.\<close>

definition apply_cuts :: "event list \<Rightarrow> error + event list" where
  "apply_cuts data =
     bind_err (cut_lep_charge (map lep_charge data)) (\<lambda>m1.
       let data1 = mask_select data (map Not m1) in
       bind_err (cut_lep_type (map lep_type data1)) (\<lambda>m2.
         Inr (mask_select data1 (map Not m2))))"

subsection \<open>Four-vectors and the invariant mass\<close>

text \<open>
  A momentum four-vector of the \<open>vector\<close> library, in the coordinates it is stored in:
  \<open>(pt, eta, phi, E)\<close> as built by \<open>vector.zip\<close>, or Cartesian \<open>(x, y, z, t)\<close> as returned
  by an addition.
\<close>

datatype vec4 = PtEtaPhiE real real real real | XYZT real real real real

fun to_xyzt :: "vec4 \<Rightarrow> real \<times> real \<times> real \<times> real" where
  "to_xyzt (PtEtaPhiE pt eta phi E) = (pt * cos phi, pt * sin phi, pt * sinh eta, E)"
| "to_xyzt (XYZT x y z t) = (x, y, z, t)"

definition add :: "vec4 \<Rightarrow> vec4 \<Rightarrow> vec4" where
  "add v w =
     (case (to_xyzt v, to_xyzt w) of
        ((x1, y1, z1, t1), (x2, y2, z2, t2)) \<Rightarrow> XYZT (x1 + x2) (y1 + y2) (z1 + z2) (t1 + t2))"

definition copysign :: "real \<Rightarrow> real \<Rightarrow> real" where
  "copysign a b = (if b < 0 then - \<bar>a\<bar> else \<bar>a\<bar>)"

text \<open>\<open>.M\<close>: the root of \<open>t\<^sup>2 - x\<^sup>2 - y\<^sup>2 - z\<^sup>2\<close>, with the sign of that difference.\<close>

definition M :: "vec4 \<Rightarrow> real" where
  "M v =
     (case to_xyzt v of
        (x, y, z, t) \<Rightarrow>
          (let tau2 = t\<^sup>2 - x\<^sup>2 - y\<^sup>2 - z\<^sup>2 in copysign (sqrt \<bar>tau2\<bar>) tau2))"

text \<open>
  \<open>vector.zip\<close> of the four columns: the columns must have as many events, and in every
  event as many leptons, as each other.
\<close>

definition zip_event :: "real list \<Rightarrow> real list \<Rightarrow> real list \<Rightarrow> real list \<Rightarrow> error + vec4 list" where
  "zip_event pt eta phi E =
     (if length pt = length eta \<and> length pt = length phi \<and> length pt = length E
      then Inr (map (\<lambda>(a, b, c, d). PtEtaPhiE a b c d) (zip pt (zip eta (zip phi E))))
      else Inl ValueError)"

definition vector_zip ::
  "real list list \<Rightarrow> real list list \<Rightarrow> real list list \<Rightarrow> real list list \<Rightarrow> error + vec4 list list" where
  "vector_zip pts etas phis Es =
     (if length pts = length etas \<and> length pts = length phis \<and> length pts = length Es
      then sequence_err (map (\<lambda>(a, b, c, d). zip_event a b c d) (zip pts (zip etas (zip phis Es))))
      else Inl ValueError)"

definition calc_mllll ::
  "real list list \<Rightarrow> real list list \<Rightarrow> real list list \<Rightarrow> real list list \<Rightarrow> error + real list" where
  "calc_mllll pts etas phis Es =
     bind_err (vector_zip pts etas phis Es) (\<lambda>p4.
     bind_err (column p4 0) (\<lambda>v0.
     bind_err (column p4 1) (\<lambda>v1.
     bind_err (column p4 2) (\<lambda>v2.
     bind_err (column p4 3) (\<lambda>v3.
       Inr (map (\<lambda>v. M v * MeV) (map2 add (map2 add (map2 add v0 v1) v2) v3)))))))"

subsection \<open>The product \<open>numevents*fraction\<close>\<close>

text \<open>
  Rounding a real to the nearest double, ties to the even significand: a double has 53
  significant bits, so the unit in the last place of \<open>x\<close> is \<open>2\<close> to the power
  \<open>floor (log2 \<bar>x\<bar>) - 52\<close>. The exponent is not bounded: overflow and subnormal numbers
  are outside the model.
\<close>

definition round_half_even :: "real \<Rightarrow> int" where
  "round_half_even x =
     (let f = \<lfloor>x\<rfloor>
      in if x - of_int f < 1 / 2 then f
         else if 1 / 2 < x - of_int f then f + 1
         else if even f then f else f + 1)"

definition fl64 :: "real \<Rightarrow> real" where
  "fl64 x =
     (if x = 0 then 0
      else (let e = \<lfloor>log 2 \<bar>x\<bar>\<rfloor> - 52
            in of_int (round_half_even (x / 2 powi e)) * 2 powi e))"

text \<open>
  Python multiplies an \<open>int\<close> by a \<open>float\<close> by converting the integer to a double and
  rounding the product of the two doubles.
\<close>

definition float_of_int :: "nat \<Rightarrow> real" where
  "float_of_int n = fl64 (real n)"

definition float_mul :: "real \<Rightarrow> real \<Rightarrow> real" where
  "float_mul a b = fl64 (a * b)"

subsection \<open>The batch reader\<close>

text \<open>
  \<open>tree.iterate(..., entry_stop=s)\<close> reads the entries below the stop \<open>s\<close>, which the
  library brings into \<open>0 .. num_entries\<close> (a negative stop counts from the end) and turns
  into an integer, and yields them in on-disk order in batches of \<open>step\<close> entries, the last
  batch holding what remains.
\<close>

definition regularize_entry_stop :: "nat \<Rightarrow> real \<Rightarrow> nat" where
  "regularize_entry_stop num_entries entry_stop =
     (let s = (if entry_stop < 0 then entry_stop + real num_entries else entry_stop)
      in nat \<lfloor>min (real num_entries) (max 0 s)\<rfloor>)"

fun chunks :: "nat \<Rightarrow> 'a list \<Rightarrow> 'a list list" where
  "chunks k [] = []"
| "chunks k (x # xs) =
     (if k = 0 then [x # xs] else take k (x # xs) # chunks k (drop k (x # xs)))"

definition iterate :: "nat \<Rightarrow> 'a list \<Rightarrow> real \<Rightarrow> 'a list list" where
  "iterate step tree entry_stop =
     chunks step (take (regularize_entry_stop (length tree) entry_stop) tree)"

subsection \<open>Reading one file\<close>

text \<open>\<open>ak.concatenate\<close> needs at least one array.\<close>

definition ak_concatenate :: "'a list list \<Rightarrow> error + 'a list" where
  "ak_concatenate arrays = (if arrays = [] then Inl ValueError else Inr (concat arrays))"

text \<open>\<open>data[field] = values\<close>, one value per event.\<close>

definition set_totalWeight :: "event list \<Rightarrow> real list \<Rightarrow> event list" where
  "set_totalWeight data ws = map2 (\<lambda>e w. e\<lparr>totalWeight := Some w\<rparr>) data ws"

definition set_mllll :: "event list \<Rightarrow> real list \<Rightarrow> event list" where
  "set_mllll data ms = map2 (\<lambda>e m. e\<lparr>mllll := Some m\<rparr>) data ms"

text \<open>
  The body of the loop over batches. \<open>xsec_weight\<close> is \<open>None\<close> while the local variable of
  that name is unbound.
\<close>

definition process_batch :: "real option \<Rightarrow> string \<Rightarrow> event list \<Rightarrow> error + event list" where
  "process_batch xsec_weight sample data =
     bind_err
       (if \<not> contains_str ''data'' sample
        then (case xsec_weight of
                None \<Rightarrow> Inl UnboundLocalError
              | Some w \<Rightarrow> Inr (set_totalWeight data (calc_weight w data)))
        else Inr data) (\<lambda>data.
     bind_err (apply_cuts data) (\<lambda>data.
     bind_err (calc_mllll (map lep_pt data) (map lep_eta data) (map lep_phi data) (map lep_E data))
       (\<lambda>ms. Inr (set_mllll data ms))))"

text \<open>
  The file system maps a path to the entries of the tree \<open>mini\<close> of the file there,
  \<open>None\<close> when the file cannot be opened. \<open>lumi\<close>, \<open>fraction\<close> and \<open>tuple_path\<close> are the
  notebook's global variables; \<open>step\<close> is the library's batch size.
\<close>

type_synonym files = "string \<rightharpoonup> entry list"

definition read_file ::
  "files \<Rightarrow> infos \<Rightarrow> real \<Rightarrow> real \<Rightarrow> nat \<Rightarrow> string \<Rightarrow> string \<Rightarrow> error + event list" where
  "read_file fs infos lumi fraction step path sample =
     (case fs path of
        None \<Rightarrow> Inl FileNotFoundError
      | Some tree \<Rightarrow>
          (let numevents = length tree in
           bind_err
             (if \<not> contains_str ''data'' sample
              then bind_err (get_xsec_weight infos lumi sample) (\<lambda>w. Inr (Some w))
              else Inr None) (\<lambda>xsec_weight.
           bind_err
             (sequence_err
                (map (\<lambda>batch. process_batch xsec_weight sample (map load batch))
                   (iterate step tree (float_mul (float_of_int numevents) fraction)))) (\<lambda>data_all.
           ak_concatenate data_all))))"

subsection \<open>Reading all samples\<close>

text \<open>The name of the file of sample \<open>val\<close> in category \<open>s\<close>.\<close>

definition fileString :: "infos \<Rightarrow> string \<Rightarrow> string \<Rightarrow> string \<Rightarrow> error + string" where
  "fileString infos tuple_path s val =
     bind_err
       (if s = ''data'' then Inr ''Data/''
        else (case infos val of
                None \<Rightarrow> Inl KeyError
              | Some info \<Rightarrow> Inr (''MC/mc_'' @ str_int (DSID info) @ ''.''))) (\<lambda>pfx.
     Inr (tuple_path @ pfx @ val @ ''.4lep.root''))"

definition read_sample ::
  "files \<Rightarrow> infos \<Rightarrow> real \<Rightarrow> real \<Rightarrow> nat \<Rightarrow> string \<Rightarrow> string \<Rightarrow> string \<Rightarrow> error + event list" where
  "read_sample fs infos lumi fraction step tuple_path s val =
     bind_err (fileString infos tuple_path s val) (\<lambda>path.
       read_file fs infos lumi fraction step path val)"

definition read_category ::
  "files \<Rightarrow> infos \<Rightarrow> real \<Rightarrow> real \<Rightarrow> nat \<Rightarrow> string \<Rightarrow> string \<Rightarrow> string list \<Rightarrow> error + event list" where
  "read_category fs infos lumi fraction step tuple_path s vals =
     bind_err (sequence_err (map (read_sample fs infos lumi fraction step tuple_path s) vals))
       ak_concatenate"

text \<open>The result dictionary, as the list of its items in insertion order.\<close>

definition get_data_from_files ::
  "samples \<Rightarrow> files \<Rightarrow> infos \<Rightarrow> real \<Rightarrow> real \<Rightarrow> nat \<Rightarrow> string \<Rightarrow> error + (string \<times> event list) list" where
  "get_data_from_files samples fs infos lumi fraction step tuple_path =
     sequence_err
       (map (\<lambda>(s, vals).
               bind_err (read_category fs infos lumi fraction step tuple_path s vals)
                 (\<lambda>frames. Inr (s, frames)))
          samples)"

subsection \<open>Histograms\<close>

text \<open>
  \<open>np.histogram(a, bins=n, range=(lo, hi))\<close>: \<open>n\<close> bins of equal width. A value counts when
  \<open>lo \<le> x \<le> hi\<close>; its bin is the integer part of \<open>(x - lo) / (hi - lo) * n\<close>, and the
  value \<open>hi\<close> itself, for which that is \<open>n\<close>, goes to the last bin.
\<close>

definition np_index :: "nat \<Rightarrow> real \<Rightarrow> real \<Rightarrow> real \<Rightarrow> nat" where
  "np_index n lo hi x =
     (let indices = nat \<lfloor>(x - lo) / (hi - lo) * real n\<rfloor>
      in if indices = n then indices - 1 else indices)"

definition np_histogram :: "real list \<Rightarrow> nat \<Rightarrow> real \<Rightarrow> real \<Rightarrow> nat list" where
  "np_histogram a n lo hi =
     (let keep = filter (\<lambda>x. lo \<le> x \<and> x \<le> hi) a
      in map (\<lambda>k. length (filter (\<lambda>x. np_index n lo hi x = k) keep)) [0..<n])"

text \<open>
  ROOT's \<open>TH1F(name, title, nbins, xmin, xmax)\<close>: the array of contents has \<open>nbins + 2\<close>
  cells, bin \<open>0\<close> for underflow, bins \<open>1 .. nbins\<close> over \<open>[xmin, xmax)\<close> and bin
  \<open>nbins + 1\<close> for overflow.
\<close>

record TH1F =
  nbins :: nat
  xmin :: real
  xmax :: real
  contents :: "real list"

definition TH1F_new :: "nat \<Rightarrow> real \<Rightarrow> real \<Rightarrow> TH1F" where
  "TH1F_new n lo hi = \<lparr>nbins = n, xmin = lo, xmax = hi, contents = replicate (n + 2) 0\<rparr>"

definition FindBin :: "TH1F \<Rightarrow> real \<Rightarrow> nat" where
  "FindBin h x =
     (if x < xmin h then 0
      else if \<not> x < xmax h then nbins h + 1
      else 1 + nat \<lfloor>real (nbins h) * (x - xmin h) / (xmax h - xmin h)\<rfloor>)"

definition AddBinContent :: "TH1F \<Rightarrow> nat \<Rightarrow> real \<Rightarrow> TH1F" where
  "AddBinContent h bin w = h\<lparr>contents := (contents h)[bin := contents h ! bin + w]\<rparr>"

definition SetBinContent :: "TH1F \<Rightarrow> nat \<Rightarrow> real \<Rightarrow> TH1F" where
  "SetBinContent h bin v = h\<lparr>contents := (contents h)[bin := v]\<rparr>"

text \<open>\<open>Fill(x, w)\<close> adds the weight to the bin of \<open>x\<close>, which may be underflow or overflow.\<close>

definition Fill :: "TH1F \<Rightarrow> real \<Rightarrow> real \<Rightarrow> TH1F" where
  "Fill h x w = AddBinContent h (FindBin h x) w"

text \<open>
  \<open>FillN(ntimes, x, w)\<close> fills the first \<open>ntimes\<close> values with their weights, one after the
  other; the notebook passes two arrays of that length. The call from Python raises when
  an array is empty, since an empty array is not accepted for a pointer argument.
\<close>

definition FillN :: "nat \<Rightarrow> real list \<Rightarrow> real list \<Rightarrow> TH1F \<Rightarrow> error + TH1F" where
  "FillN ntimes x w h =
     (if x = [] \<or> w = [] then Inl TypeError
      else Inr (fold (\<lambda>(xi, wi) h. Fill h xi wi) (zip (take ntimes x) w) h))"

text \<open>The contents of the regular bins \<open>1 .. nbins\<close>, which are what the file exports.\<close>

definition bin_contents :: "TH1F \<Rightarrow> real list" where
  "bin_contents h = map (\<lambda>k. contents h ! k) [1..<Suc (nbins h)]"

definition n_bins :: nat where
  "n_bins = 36"

definition hist_xmin :: real where
  "hist_xmin = 70"

definition hist_xmax :: real where
  "hist_xmax = 180"

text \<open>The histogram of the observed data: NumPy counts, copied bin by bin.\<close>

definition data_hist :: "real list \<Rightarrow> TH1F" where
  "data_hist masses =
     (let data_x = np_histogram masses n_bins hist_xmin hist_xmax
      in fold (\<lambda>(i, val) h. SetBinContent h (i + 1) (real val)) (enumerate 0 data_x)
           (TH1F_new n_bins hist_xmin hist_xmax))"

text \<open>The histogram of a simulated category: filled by ROOT with the weights.\<close>

definition mc_hist :: "real list \<Rightarrow> real list \<Rightarrow> error + TH1F" where
  "mc_hist masses weights =
     FillN (length masses) masses weights (TH1F_new n_bins hist_xmin hist_xmax)"

text \<open>Reading a field the notebook added; it must be present.\<close>

definition get_field :: "(event \<Rightarrow> real option) \<Rightarrow> event list \<Rightarrow> error + real list" where
  "get_field f events =
     sequence_err (map (\<lambda>e. case f e of None \<Rightarrow> Inl AttributeError | Some v \<Rightarrow> Inr v) events)"

definition lookup :: "(string \<times> 'a) list \<Rightarrow> string \<Rightarrow> error + 'a" where
  "lookup d k = (case map_of d k of None \<Rightarrow> Inl KeyError | Some v \<Rightarrow> Inr v)"

definition signal_name :: string where
  "signal_name = ''Signal ($m_H$ = 125 GeV)''"

definition mc_entry :: "(string \<times> event list) list \<Rightarrow> string \<Rightarrow> string \<Rightarrow> error + string \<times> TH1F" where
  "mc_entry data name s =
     bind_err (lookup data s) (\<lambda>events.
     bind_err (get_field mllll events) (\<lambda>mc_x.
     bind_err (get_field totalWeight events) (\<lambda>mc_weights.
     bind_err (mc_hist mc_x mc_weights) (\<lambda>mc_hist.
       Inr (name, mc_hist)))))"

text \<open>The objects written to \<open>ATLAS_histograms.root\<close>, in the order they are written.\<close>

definition save_histograms_to_root ::
  "samples \<Rightarrow> (string \<times> event list) list \<Rightarrow> error + (string \<times> TH1F) list" where
  "save_histograms_to_root samples data =
     bind_err (lookup data ''data'') (\<lambda>events.
     bind_err (get_field mllll events) (\<lambda>masses.
     bind_err (mc_entry data ''signal_hist'' signal_name) (\<lambda>signal.
     bind_err
       (sequence_err
          (map (\<lambda>s. mc_entry data (''mc_hist_'' @ s) s)
             (filter (\<lambda>s. s \<notin> set [''data'', signal_name]) (map fst samples)))) (\<lambda>mcs.
       Inr ((''data_hist'', data_hist masses) # signal # mcs)))))"

subsection \<open>Reference predicates and example inputs\<close>

text \<open>
  The two requirements of the selection, in the words of the specification: the sums are
  sums of integers, the charges read as signed and the type codes as unsigned values.
\<close>

definition charge_balanced :: "event \<Rightarrow> bool" where
  "charge_balanced e = (sum_list (map sint (take 4 (lep_charge e))) = 0)"

definition flavour_allowed :: "event \<Rightarrow> bool" where
  "flavour_allowed e = (sum_list (map uint (take 4 (lep_type e))) \<in> {44, 48, 52})"

text \<open>The same two requirements with the sums taken in the 32-bit arithmetic of the columns.\<close>

definition charge_sum_zero :: "event \<Rightarrow> bool" where
  "charge_sum_zero e = (sum_list (take 4 (lep_charge e)) = 0)"

definition type_sum_allowed :: "event \<Rightarrow> bool" where
  "type_sum_allowed e = (sum_list (take 4 (lep_type e)) \<in> {44, 48, 52})"

text \<open>
  The first four charges and type codes of an event are small: below \<open>2\<^sup>3\<^sup>0\<close> in
  magnitude, so that a sum of four of them does not wrap around.
\<close>

definition small_first_four :: "event \<Rightarrow> bool" where
  "small_first_four e =
     (list_all (\<lambda>c. \<bar>sint c\<bar> < 2 ^ 30) (take 4 (lep_charge e))
      \<and> list_all (\<lambda>t. uint t < 2 ^ 30) (take 4 (lep_type e)))"

text \<open>
  An entry with the given leptons, each a tuple \<open>(pt, eta, phi, E, charge, type)\<close>, and
  the given generator weight and scale factors.
\<close>

definition mk_entry ::
  "(real \<times> real \<times> real \<times> real \<times> 32 word \<times> 32 word) list
     \<Rightarrow> real \<Rightarrow> real \<Rightarrow> real \<Rightarrow> real \<Rightarrow> real \<Rightarrow> entry" where
  "mk_entry leps mc pu el mu tr =
     \<lparr>lep_pt = map (\<lambda>(pt, eta, phi, E, q, ty). pt) leps,
      lep_eta = map (\<lambda>(pt, eta, phi, E, q, ty). eta) leps,
      lep_phi = map (\<lambda>(pt, eta, phi, E, q, ty). phi) leps,
      lep_E = map (\<lambda>(pt, eta, phi, E, q, ty). E) leps,
      lep_charge = map (\<lambda>(pt, eta, phi, E, q, ty). q) leps,
      lep_type = map (\<lambda>(pt, eta, phi, E, q, ty). ty) leps,
      mcWeight = mc, scaleFactor_PILEUP = pu, scaleFactor_ELE = el,
      scaleFactor_MUON = mu, scaleFactor_LepTRIGGER = tr\<rparr>"

text \<open>Two electrons and two muons, charges balanced.\<close>

definition entry_2e2mu :: entry where
  "entry_2e2mu =
     mk_entry [(3, 0, 0, 5, 1, 11), (3, 0, 0, 5, - 1, 11), (3, 0, 0, 5, 1, 13), (3, 0, 0, 5, - 1, 13)]
       2 1 1 1 1"

text \<open>Four muons with total charge two.\<close>

definition entry_4mu_unbalanced :: entry where
  "entry_4mu_unbalanced =
     mk_entry [(3, 0, 0, 5, 1, 13), (3, 0, 0, 5, 1, 13), (3, 0, 0, 5, 1, 13), (3, 0, 0, 5, - 1, 13)]
       1 1 1 1 1"

text \<open>Four leptons whose charges add up to \<open>2\<^sup>3\<^sup>2\<close>, which is zero in 32 bits.\<close>

definition entry_wrapped :: entry where
  "entry_wrapped =
     mk_entry [(3, 0, 0, 5, 2147483647, 11), (3, 0, 0, 5, 2147483647, 11), (3, 0, 0, 5, 1, 13),
               (3, 0, 0, 5, 1, 13)]
       1 1 1 1 1"

text \<open>An entry with three leptons only.\<close>

definition entry_3lep :: entry where
  "entry_3lep =
     mk_entry [(3, 0, 0, 5, 1, 11), (3, 0, 0, 5, - 1, 11), (3, 0, 0, 5, 1, 13)] 1 1 1 1 1"

text \<open>The metadata of one simulated sample.\<close>

definition info_llll :: info where
  "info_llll = \<lparr>DSID = 363490, xsec = 5 / 4, sumw = 1000, red_eff = 1\<rparr>"

text \<open>
  The invariant mass in the words of the specification: build the four-vectors of the
  first four leptons, sum them component by component, and take the mass from the total
  energy and the magnitude of the total momentum; then convert from MeV to GeV.
  The square root of HOL is odd, \<open>sqrt (- x) = - sqrt x\<close>, so for a space-like sum
  \<open>invariant_mass\<close> is the negated root of \<open>\<bar>E\<^sup>2 - \<bar>p\<bar>\<^sup>2\<bar>\<close>.
\<close>

definition aligned :: "event \<Rightarrow> bool" where
  "aligned e = (length (lep_pt e) = length (lep_eta e) \<and> length (lep_pt e) = length (lep_phi e)
     \<and> length (lep_pt e) = length (lep_E e))"

definition four_momentum_sum :: "event \<Rightarrow> real \<times> real \<times> real \<times> real" where
  "four_momentum_sum e =
     (let leps = take 4 (zip (lep_pt e) (zip (lep_eta e) (zip (lep_phi e) (lep_E e))))
      in (sum_list (map (\<lambda>(pt, eta, phi, E). pt * cos phi) leps),
          sum_list (map (\<lambda>(pt, eta, phi, E). pt * sin phi) leps),
          sum_list (map (\<lambda>(pt, eta, phi, E). pt * sinh eta) leps),
          sum_list (map (\<lambda>(pt, eta, phi, E). E) leps)))"

definition invariant_mass :: "real \<times> real \<times> real \<times> real \<Rightarrow> real" where
  "invariant_mass p = (case p of (px, py, pz, E) \<Rightarrow> sqrt (E\<^sup>2 - (sqrt (px\<^sup>2 + py\<^sup>2 + pz\<^sup>2))\<^sup>2))"

definition invariantMass :: "event \<Rightarrow> real" where
  "invariantMass e = invariant_mass (four_momentum_sum e) * 0.001"

text \<open>The array of four-vectors that \<open>vector.zip\<close> builds for one event.\<close>

definition p4_of :: "event \<Rightarrow> vec4 list" where
  "p4_of e = map (\<lambda>(a, b, c, d). PtEtaPhiE a b c d)
     (zip (lep_pt e) (zip (lep_eta e) (zip (lep_phi e) (lep_E e))))"

text \<open>
  Reordering the leptons of an event after the fourth: position \<open>4 + k\<close> of every
  lepton column receives the element at position \<open>p ! k\<close>.
\<close>

definition reorder_tail :: "nat list \<Rightarrow> 'a list \<Rightarrow> 'a list" where
  "reorder_tail p xs = take 4 xs @ map (\<lambda>i. xs ! i) p"

definition reorder_leptons :: "nat list \<Rightarrow> event \<Rightarrow> event" where
  "reorder_leptons p e =
     e\<lparr>lep_pt := reorder_tail p (lep_pt e),
       lep_eta := reorder_tail p (lep_eta e),
       lep_phi := reorder_tail p (lep_phi e),
       lep_E := reorder_tail p (lep_E e),
       lep_charge := reorder_tail p (lep_charge e),
       lep_type := reorder_tail p (lep_type e)\<rparr>"

text \<open>Six leptons, the first four as in \<open>entry_2e2mu\<close>.\<close>

definition entry_6lep :: entry where
  "entry_6lep =
     mk_entry [(3, 0, 0, 5, 1, 11), (3, 0, 0, 5, - 1, 11), (3, 0, 0, 5, 1, 13), (3, 0, 0, 5, - 1, 13),
               (7, 1, 2, 30, 1, 11), (9, 2, 1, 40, - 1, 13)]
       1 1 1 1 1"

text \<open>The product of the generator weight and the four scale factors of an event.\<close>

definition weight_product :: "event \<Rightarrow> real" where
  "weight_product e = mcWeight e * scaleFactor_PILEUP e * scaleFactor_ELE e
     * scaleFactor_MUON e * scaleFactor_LepTRIGGER e"

text \<open>An event with the total weight that \<open>read_file\<close> attaches for the cross-section weight \<open>w\<close>.\<close>

definition weighted :: "real \<Rightarrow> event \<Rightarrow> event" where
  "weighted w e = e\<lparr>totalWeight := Some (w * mcWeight e * scaleFactor_PILEUP e * scaleFactor_ELE e
        * scaleFactor_MUON e * scaleFactor_LepTRIGGER e)\<rparr>"

text \<open>A file of the simulated sample \<open>llll\<close> with two entries, and the event selected from it.\<close>

definition files_llll :: files where
  "files_llll = [''MC/mc_363490.llll.4lep.root'' \<mapsto> [entry_4mu_unbalanced, entry_2e2mu]]"

definition selected_2e2mu :: event where
  "selected_2e2mu = (load entry_2e2mu)\<lparr>totalWeight := Some 25, mllll := Some (2 / 125)\<rparr>"

text \<open>
  A file of a simulated sample whose identifier contains \<open>data\<close>, in a category other
  than \<open>data\<close>, and the event selected from it.
\<close>

definition files_Zdata :: files where
  "files_Zdata = [''MC/mc_363490.Zdata.4lep.root'' \<mapsto> [entry_2e2mu]]"

definition unweighted_2e2mu :: event where
  "unweighted_2e2mu = (load entry_2e2mu)\<lparr>mllll := Some (2 / 125)\<rparr>"

text \<open>A histogram with the binning of the export and an array of contents of the right length.\<close>

definition wf_hist :: "TH1F \<Rightarrow> bool" where
  "wf_hist h = (nbins h = n_bins \<and> xmin h = hist_xmin \<and> xmax h = hist_xmax
     \<and> length (contents h) = n_bins + 2)"

text \<open>The half-open range of the regular bins of a \<open>TH1F\<close>, and the closed range of \<open>np.histogram\<close>.\<close>

definition in_range :: "real \<Rightarrow> bool" where
  "in_range x = (hist_xmin \<le> x \<and> x < hist_xmax)"

definition in_closed_range :: "real \<Rightarrow> bool" where
  "in_closed_range x = (hist_xmin \<le> x \<and> x \<le> hist_xmax)"

text \<open>
  An event that the cuts and the mass calculation accept: its four kinematic columns are
  aligned and every lepton column has at least four elements.
\<close>

definition well_formed :: "event \<Rightarrow> bool" where
  "well_formed e = (aligned e \<and> 4 \<le> length (lep_pt e) \<and> 4 \<le> length (lep_charge e)
     \<and> 4 \<le> length (lep_type e))"

text \<open>An event that both cuts of the code keep.\<close>

definition passes_cuts :: "event \<Rightarrow> bool" where
  "passes_cuts e = (charge_sum_zero e \<and> type_sum_allowed e)"

text \<open>An event with the field \<open>mllll\<close> that \<open>read_file\<close> adds.\<close>

definition with_mllll :: "event \<Rightarrow> event" where
  "with_mllll e = e\<lparr>mllll := Some (invariantMass e)\<rparr>"

text \<open>The number of entries of a tree that \<open>read_file\<close> asks \<open>iterate\<close> for.\<close>

definition entry_stop :: "'a list \<Rightarrow> real \<Rightarrow> nat" where
  "entry_stop tree fraction =
     regularize_entry_stop (length tree) (float_mul (float_of_int (length tree)) fraction)"


text \<open>
  An observed event and a signal event with a mass of exactly 180, the categories they
  belong to and the dictionary of results that holds them.
\<close>

definition data_event_180 :: event where
  "data_event_180 = (load entry_2e2mu)\<lparr>mllll := Some 180\<rparr>"

definition signal_event_180 :: event where
  "signal_event_180 = (load entry_2e2mu)\<lparr>totalWeight := Some (1 / 10), mllll := Some 180\<rparr>"

definition samples_180 :: samples where
  "samples_180 = [(''data'', [''data_A'']), (signal_name, [''ggH125_ZZ4lep''])]"

definition data_180 :: "(string \<times> event list) list" where
  "data_180 = [(''data'', [data_event_180]), (signal_name, [signal_event_180])]"

text \<open>
  What is read off an exported histogram: the sum of its regular bins, the content of its
  last regular bin and the content of its overflow cell.
\<close>

definition bin_summary :: "TH1F \<Rightarrow> real \<times> real \<times> real" where
  "bin_summary h = (sum_list (bin_contents h), contents h ! nbins h, contents h ! (nbins h + 1))"

section \<open>Properties\<close>

subsection \<open>Auxiliary facts\<close>

lemma bind_err_simps:
  "bind_err (Inl e) f = Inl e"
  "bind_err (Inr x) f = f x"
  by (simp_all add: bind_err_def)

lemma contains_str_sublist: "contains_str sub s = sublist sub s"
proof (induction s)
  case Nil
  then show ?case by simp
next
  case (Cons c cs)
  then show ?case by (cases sub) (simp_all add: sublist_Cons_right)
qed

lemma column_map:
  "column (map f es) i =
     (if \<forall>e\<in>set es. i < length (f e) then Inr (map (\<lambda>e. f e ! i) es) else Inl IndexError)"
  by (simp add: column_def list_all_iff comp_def)

lemma zip_map_same: "zip (map f es) (map h es) = map (\<lambda>e. (f e, h e)) es"
  by (induction es) simp_all

lemma mask_select_map: "mask_select es (map P es) = filter P es"
  by (induction es) (simp_all add: mask_select_def)

lemma sum_list_take4:
  fixes xs :: "'a::comm_monoid_add list"
  assumes "4 \<le> length xs"
  shows "sum_list (take 4 xs) = xs ! 0 + xs ! 1 + xs ! 2 + xs ! 3"
proof -
  obtain a b c d rest where "xs = a # b # c # d # rest"
    using assms by (cases xs; cases "tl xs"; cases "tl (tl xs)"; cases "tl (tl (tl xs))") auto
  then show ?thesis by (simp add: add.assoc)
qed

lemma cut_lep_charge_map:
  assumes "\<forall>e\<in>set es. 4 \<le> length (lep_charge e)"
  shows "cut_lep_charge (map lep_charge es) = Inr (map (\<lambda>e. \<not> charge_sum_zero e) es)"
proof -
  have "\<forall>e\<in>set es. i < length (lep_charge e)" if "i < 4" for i
    using assms that by fastforce
  then have c: "column (map lep_charge es) i = Inr (map (\<lambda>e. lep_charge e ! i) es)" if "i < 4" for i
    using that by (simp add: column_map)
  have "map (\<lambda>e. lep_charge e ! 0 + lep_charge e ! 1 + lep_charge e ! 2 + lep_charge e ! 3 \<noteq> 0) es
      = map (\<lambda>e. \<not> charge_sum_zero e) es"
    using assms by (simp add: charge_sum_zero_def sum_list_take4)
  then show ?thesis
    by (simp add: cut_lep_charge_def c bind_err_simps zip_map_same comp_def)
qed

lemma cut_lep_type_map:
  assumes "\<forall>e\<in>set es. 4 \<le> length (lep_type e)"
  shows "cut_lep_type (map lep_type es) = Inr (map (\<lambda>e. \<not> type_sum_allowed e) es)"
proof -
  have "\<forall>e\<in>set es. i < length (lep_type e)" if "i < 4" for i
    using assms that by fastforce
  then have c: "column (map lep_type es) i = Inr (map (\<lambda>e. lep_type e ! i) es)" if "i < 4" for i
    using that by (simp add: column_map)
  have "map (\<lambda>e. lep_type e ! 0 + lep_type e ! 1 + lep_type e ! 2 + lep_type e ! 3 \<noteq> 44
              \<and> lep_type e ! 0 + lep_type e ! 1 + lep_type e ! 2 + lep_type e ! 3 \<noteq> 48
              \<and> lep_type e ! 0 + lep_type e ! 1 + lep_type e ! 2 + lep_type e ! 3 \<noteq> 52) es
      = map (\<lambda>e. \<not> type_sum_allowed e) es"
    using assms by (simp add: type_sum_allowed_def sum_list_take4)
  then show ?thesis
    by (simp add: cut_lep_type_def c bind_err_simps zip_map_same comp_def)
qed

lemma apply_cuts_filter:
  assumes "\<forall>e\<in>set data. 4 \<le> length (lep_charge e) \<and> 4 \<le> length (lep_type e)"
  shows "apply_cuts data = Inr (filter (\<lambda>e. charge_sum_zero e \<and> type_sum_allowed e) data)"
proof -
  have 1: "cut_lep_charge (map lep_charge data) = Inr (map (\<lambda>e. \<not> charge_sum_zero e) data)"
    using assms by (simp add: cut_lep_charge_map)
  have 2: "cut_lep_type (map lep_type (filter charge_sum_zero data))
         = Inr (map (\<lambda>e. \<not> type_sum_allowed e) (filter charge_sum_zero data))"
    using assms by (simp add: cut_lep_type_map)
  have "apply_cuts data = Inr (filter type_sum_allowed (filter charge_sum_zero data))"
    by (simp add: apply_cuts_def 1 2 bind_err_simps comp_def mask_select_map Let_def)
  moreover have "filter type_sum_allowed (filter charge_sum_zero data)
      = filter (\<lambda>e. charge_sum_zero e \<and> type_sum_allowed e) data"
    by (simp add: conj_commute)
  ultimately show ?thesis by simp
qed

lemma load_mk_entry_simps:
  "lep_charge (load (mk_entry leps mc pu el mu tr)) = map (\<lambda>(pt, eta, phi, E, q, ty). q) leps"
  "lep_type (load (mk_entry leps mc pu el mu tr)) = map (\<lambda>(pt, eta, phi, E, q, ty). ty) leps"
  "lep_pt (load (mk_entry leps mc pu el mu tr)) = map (\<lambda>(pt, eta, phi, E, q, ty). pt) leps"
  "lep_eta (load (mk_entry leps mc pu el mu tr)) = map (\<lambda>(pt, eta, phi, E, q, ty). eta) leps"
  "lep_phi (load (mk_entry leps mc pu el mu tr)) = map (\<lambda>(pt, eta, phi, E, q, ty). phi) leps"
  "lep_E (load (mk_entry leps mc pu el mu tr)) = map (\<lambda>(pt, eta, phi, E, q, ty). E) leps"
  by (simp_all add: load_def mk_entry_def entry.defs)

subsection \<open>The cross-section weight\<close>

text \<open>
  Claim C2. For a sample with a metadata record, \<open>get_xsec_weight\<close> returns
  \<open>lumi * 1000 * xsec / (sumw * red_eff)\<close> when \<open>sumw\<close> and \<open>red_eff\<close> are both nonzero, and
  raises the division error, returning no value, when one of them is zero.
\<close>

theorem get_xsec_weight_value:
  assumes "infos sample = Some info"
  shows "get_xsec_weight infos lumi sample =
     (if sumw info = 0 \<or> red_eff info = 0 then Inl ZeroDivisionError
      else Inr (lumi * 1000 * xsec info / (sumw info * red_eff info)))"
  using assms by (simp add: get_xsec_weight_def py_div_def)

theorem get_xsec_weight_value_witness:
  "[''llll'' \<mapsto> info_llll] ''llll'' = Some info_llll
   \<and> get_xsec_weight [''llll'' \<mapsto> info_llll] 10 ''llll'' = Inr (25 / 2)
   \<and> get_xsec_weight [''llll'' \<mapsto> info_llll\<lparr>sumw := 0\<rparr>] 10 ''llll'' = Inl ZeroDivisionError"
  using get_xsec_weight_value [of "[''llll'' \<mapsto> info_llll]" "''llll''" info_llll 10]
    get_xsec_weight_value [of "[''llll'' \<mapsto> info_llll\<lparr>sumw := 0\<rparr>]" "''llll''" "info_llll\<lparr>sumw := 0\<rparr>" 10]
  by (simp add: info_llll_def)

subsection \<open>The selection\<close>

lemma first_four:
  assumes "4 \<le> length xs"
  obtains a b c d rest where "xs = a # b # c # d # rest"
  using assms by (cases xs; cases "tl xs"; cases "tl (tl xs)"; cases "tl (tl (tl xs))") auto

lemma word_sum4_eq_0:
  fixes a b c d :: "32 word"
  assumes "\<bar>sint a\<bar> < 2 ^ 30" "\<bar>sint b\<bar> < 2 ^ 30" "\<bar>sint c\<bar> < 2 ^ 30" "\<bar>sint d\<bar> < 2 ^ 30"
  shows "(a + b + c + d = 0) = (sint a + sint b + sint c + sint d = 0)"
proof -
  have "a + b + c + d = word_of_int (sint a + sint b + sint c + sint d)"
    by simp
  then have "(a + b + c + d = 0) = ((2::int) ^ 32 dvd sint a + sint b + sint c + sint d)"
    by (simp only: word_of_int_eq_0_iff) simp
  also have "\<dots> = (sint a + sint b + sint c + sint d = 0)"
  proof
    assume d: "(2::int) ^ 32 dvd sint a + sint b + sint c + sint d"
    have "\<bar>sint a + sint b + sint c + sint d\<bar> < 2 ^ 32"
      using assms by simp
    with d show "sint a + sint b + sint c + sint d = 0"
      using zdvd_not_zless [of "\<bar>sint a + sint b + sint c + sint d\<bar>" "2 ^ 32"] by auto
  next
    assume "sint a + sint b + sint c + sint d = 0"
    then show "(2::int) ^ 32 dvd sint a + sint b + sint c + sint d" by simp
  qed
  finally show ?thesis .
qed

lemma word_sum4_eq_int:
  fixes a b c d :: "32 word"
  assumes "uint a < 2 ^ 30" "uint b < 2 ^ 30" "uint c < 2 ^ 30" "uint d < 2 ^ 30"
    and "0 \<le> k" "k < 2 ^ 32"
  shows "(a + b + c + d = word_of_int k) = (uint a + uint b + uint c + uint d = k)"
proof -
  have s: "uint (a + b + c + d) = uint a + uint b + uint c + uint d"
    using assms(1-4) by (simp add: uint_word_ariths take_bit_eq_mod mod_add_left_eq)
  have "uint (word_of_int k :: 32 word) = k"
    using assms(5,6) by (simp add: uint_word_of_int take_bit_eq_mod)
  then have "(a + b + c + d = word_of_int k) = (uint (a + b + c + d) = k)"
    by (metis word_uint_eq_iff)
  with s show ?thesis by simp
qed

lemma charge_sum_zero_iff:
  assumes "4 \<le> length (lep_charge e)" and "small_first_four e"
  shows "charge_sum_zero e = charge_balanced e"
proof -
  from assms(1) obtain a b c d rest where l: "lep_charge e = a # b # c # d # rest"
    by (rule first_four)
  with assms(2) have "\<bar>sint a\<bar> < 2 ^ 30" "\<bar>sint b\<bar> < 2 ^ 30" "\<bar>sint c\<bar> < 2 ^ 30" "\<bar>sint d\<bar> < 2 ^ 30"
    by (simp_all add: small_first_four_def)
  from word_sum4_eq_0 [OF this] show ?thesis
    by (simp add: charge_sum_zero_def charge_balanced_def l add.assoc)
qed

lemma type_sum_allowed_iff:
  assumes "4 \<le> length (lep_type e)" and "small_first_four e"
  shows "type_sum_allowed e = flavour_allowed e"
proof -
  from assms(1) obtain a b c d rest where l: "lep_type e = a # b # c # d # rest"
    by (rule first_four)
  with assms(2) have u: "uint a < 2 ^ 30" "uint b < 2 ^ 30" "uint c < 2 ^ 30" "uint d < 2 ^ 30"
    by (simp_all add: small_first_four_def)
  have "(a + b + c + d = 44) = (uint a + uint b + uint c + uint d = 44)"
    and "(a + b + c + d = 48) = (uint a + uint b + uint c + uint d = 48)"
    and "(a + b + c + d = 52) = (uint a + uint b + uint c + uint d = 52)"
    using word_sum4_eq_int [OF u, of 44] word_sum4_eq_int [OF u, of 48]
      word_sum4_eq_int [OF u, of 52] by simp_all
  then show ?thesis
    by (simp add: type_sum_allowed_def flavour_allowed_def l add.assoc)
qed

text \<open>
  The sums of the code wrap around: four charges whose integer sum is \<open>2\<^sup>3\<^sup>2\<close> pass the
  charge cut.
\<close>

lemma apply_cuts_wraps:
  "apply_cuts [load entry_wrapped] = Inr [load entry_wrapped]
   \<and> \<not> charge_balanced (load entry_wrapped)"
proof -
  have "apply_cuts [load entry_wrapped]
      = Inr (filter (\<lambda>e. charge_sum_zero e \<and> type_sum_allowed e) [load entry_wrapped])"
    by (rule apply_cuts_filter) (simp add: entry_wrapped_def load_mk_entry_simps)
  then show ?thesis
    by (simp add: entry_wrapped_def load_mk_entry_simps charge_sum_zero_def
        type_sum_allowed_def charge_balanced_def)
qed

text \<open>
  Claim C3. On a batch whose events all have at least four leptons, with the first four
  charges and type codes small enough for their sums not to wrap around, the two cuts of
  \<open>read_file\<close> keep exactly the events whose first four charges sum to zero and whose
  first four type codes sum to 44, 48 or 52, in the order of the batch.
\<close>

theorem apply_cuts_keeps:
  assumes "\<forall>e\<in>set data. 4 \<le> length (lep_charge e) \<and> 4 \<le> length (lep_type e)
      \<and> small_first_four e"
  shows "apply_cuts data = Inr (filter (\<lambda>e. charge_balanced e \<and> flavour_allowed e) data)
       \<and> subseq (filter (\<lambda>e. charge_balanced e \<and> flavour_allowed e) data) data"
proof -
  have "apply_cuts data = Inr (filter (\<lambda>e. charge_sum_zero e \<and> type_sum_allowed e) data)"
    using assms by (simp add: apply_cuts_filter)
  moreover have "filter (\<lambda>e. charge_sum_zero e \<and> type_sum_allowed e) data
      = filter (\<lambda>e. charge_balanced e \<and> flavour_allowed e) data"
    using assms by (intro filter_cong refl) (simp add: charge_sum_zero_iff type_sum_allowed_iff)
  ultimately show ?thesis by simp
qed

theorem apply_cuts_keeps_witness:
  "4 \<le> length (lep_charge (load entry_4mu_unbalanced))
   \<and> 4 \<le> length (lep_type (load entry_4mu_unbalanced))
   \<and> small_first_four (load entry_4mu_unbalanced)
   \<and> 4 \<le> length (lep_charge (load entry_2e2mu))
   \<and> 4 \<le> length (lep_type (load entry_2e2mu))
   \<and> small_first_four (load entry_2e2mu)
   \<and> apply_cuts (map load [entry_4mu_unbalanced, entry_2e2mu]) = Inr [load entry_2e2mu]"
  using apply_cuts_keeps [of "map load [entry_4mu_unbalanced, entry_2e2mu]"]
  by (simp add: entry_4mu_unbalanced_def entry_2e2mu_def load_mk_entry_simps
      charge_balanced_def flavour_allowed_def small_first_four_def)

subsection \<open>The invariant mass\<close>

lemma sequence_err_map_if:
  assumes "\<And>x. f x = (if P x then Inr (g x) else Inl err)"
  shows "sequence_err (map f xs) = (if \<forall>x\<in>set xs. P x then Inr (map g xs) else Inl err)"
  by (induction xs) (simp_all add: assms)

lemma vector_zip_map:
  "vector_zip (map lep_pt es) (map lep_eta es) (map lep_phi es) (map lep_E es) =
     (if \<forall>e\<in>set es. aligned e then Inr (map p4_of es) else Inl ValueError)"
proof -
  have "sequence_err (map (\<lambda>e. zip_event (lep_pt e) (lep_eta e) (lep_phi e) (lep_E e)) es) =
     (if \<forall>e\<in>set es. aligned e then Inr (map p4_of es) else Inl ValueError)"
    by (rule sequence_err_map_if) (simp add: zip_event_def aligned_def p4_of_def)
  then show ?thesis
    by (simp add: vector_zip_def zip_map_same comp_def)
qed

lemma copysign_sqrt: "copysign (sqrt \<bar>x\<bar>) x = sqrt x"
  by (cases "x < 0") (simp_all add: copysign_def real_sqrt_minus abs_if)

lemma length_p4_of: "aligned e \<Longrightarrow> length (p4_of e) = length (lep_pt e)"
  by (simp add: p4_of_def aligned_def)

lemma mass_of_first_four:
  assumes "aligned e" and "4 \<le> length (lep_pt e)"
  shows "M (add (add (add (p4_of e ! 0) (p4_of e ! 1)) (p4_of e ! 2)) (p4_of e ! 3)) * MeV
       = invariantMass e"
proof -
  obtain a0 a1 a2 a3 ar where a: "lep_pt e = a0 # a1 # a2 # a3 # ar"
    using assms(2)
    by (cases "lep_pt e"; cases "tl (lep_pt e)"; cases "tl (tl (lep_pt e))";
        cases "tl (tl (tl (lep_pt e)))") auto
  obtain b0 b1 b2 b3 br where b: "lep_eta e = b0 # b1 # b2 # b3 # br"
    using assms
    by (cases "lep_eta e"; cases "tl (lep_eta e)"; cases "tl (tl (lep_eta e))";
        cases "tl (tl (tl (lep_eta e)))") (auto simp: aligned_def)
  obtain c0 c1 c2 c3 cr where c: "lep_phi e = c0 # c1 # c2 # c3 # cr"
    using assms
    by (cases "lep_phi e"; cases "tl (lep_phi e)"; cases "tl (tl (lep_phi e))";
        cases "tl (tl (tl (lep_phi e)))") (auto simp: aligned_def)
  obtain d0 d1 d2 d3 dr where d: "lep_E e = d0 # d1 # d2 # d3 # dr"
    using assms
    by (cases "lep_E e"; cases "tl (lep_E e)"; cases "tl (tl (lep_E e))";
        cases "tl (tl (tl (lep_E e)))") (auto simp: aligned_def)
  have nn: "0 \<le> x\<^sup>2 + y\<^sup>2 + z\<^sup>2" for x y z :: real
    by simp
  show ?thesis
    by (simp add: p4_of_def a b c d add_def M_def Let_def copysign_sqrt invariantMass_def
        invariant_mass_def four_momentum_sum_def MeV_def nn algebra_simps)
qed

lemma calc_mllll_map:
  "calc_mllll (map lep_pt es) (map lep_eta es) (map lep_phi es) (map lep_E es) =
     (if \<not> (\<forall>e\<in>set es. aligned e) then Inl ValueError
      else if \<not> (\<forall>e\<in>set es. 4 \<le> length (lep_pt e)) then Inl IndexError
      else Inr (map invariantMass es))"
proof (cases "\<forall>e\<in>set es. aligned e")
  case False
  then have "vector_zip (map lep_pt es) (map lep_eta es) (map lep_phi es) (map lep_E es)
      = Inl ValueError"
    by (simp add: vector_zip_map)
  with False show ?thesis
    by (simp add: calc_mllll_def bind_err_simps)
next
  case al: True
  then have vz: "vector_zip (map lep_pt es) (map lep_eta es) (map lep_phi es) (map lep_E es)
      = Inr (map p4_of es)"
    by (simp add: vector_zip_map)
  show ?thesis
  proof (cases "\<forall>e\<in>set es. 4 \<le> length (lep_pt e)")
    case True
    have "\<forall>e\<in>set es. i < length (p4_of e)" if "i < 4" for i
      using al True that by (fastforce simp: length_p4_of)
    then have col: "column (map p4_of es) i = Inr (map (\<lambda>e. p4_of e ! i) es)" if "i < 4" for i
      using that by (simp add: column_map)
    have "map (\<lambda>e. M (add (add (add (p4_of e ! 0) (p4_of e ! 1)) (p4_of e ! 2)) (p4_of e ! 3)) * MeV) es
        = map invariantMass es"
      using al True by (simp del: One_nat_def add: mass_of_first_four)
    then show ?thesis
      using al True
      by (simp add: calc_mllll_def vz bind_err_simps col zip_map_same comp_def)
  next
    case False
    then obtain e where e: "e \<in> set es" "length (lep_pt e) < 4"
      by (auto simp: not_le)
    then have "\<not> 3 < length (p4_of e)"
      using al by (simp add: length_p4_of)
    with e have "\<not> (\<forall>e\<in>set es. 3 < length (p4_of e))"
      by blast
    then have c3: "column (map p4_of es) 3 = Inl IndexError"
      by (simp add: column_map)
    show ?thesis
      using al False
      by (simp add: calc_mllll_def vz bind_err_simps c3 bind_err_def split: sum.splits)
        (auto simp: column_def split: if_splits)
  qed
qed


lemma reorder_leptons_simps:
  "lep_pt (reorder_leptons p e) = reorder_tail p (lep_pt e)"
  "lep_eta (reorder_leptons p e) = reorder_tail p (lep_eta e)"
  "lep_phi (reorder_leptons p e) = reorder_tail p (lep_phi e)"
  "lep_E (reorder_leptons p e) = reorder_tail p (lep_E e)"
  by (simp_all add: reorder_leptons_def)

lemma take4_reorder_tail: "4 \<le> length xs \<Longrightarrow> take 4 (reorder_tail p xs) = take 4 xs"
  by (simp add: reorder_tail_def)

lemma length_reorder_tail: "4 \<le> length xs \<Longrightarrow> length (reorder_tail p xs) = 4 + length p"
  by (simp add: reorder_tail_def)

lemma aligned_reorder_leptons:
  assumes "aligned e" and "4 \<le> length (lep_pt e)"
  shows "aligned (reorder_leptons p e)" and "4 \<le> length (lep_pt (reorder_leptons p e))"
  using assms by (simp_all add: aligned_def reorder_leptons_simps length_reorder_tail)

lemma invariantMass_reorder_leptons:
  assumes "aligned e" and "4 \<le> length (lep_pt e)"
  shows "invariantMass (reorder_leptons p e) = invariantMass e"
  using assms
  by (simp add: invariantMass_def four_momentum_sum_def take_zip reorder_leptons_simps
      take4_reorder_tail aligned_def)

text \<open>
  Claim C4. On a batch whose events all have at least four leptons, \<open>calc_mllll\<close> returns
  for every event the invariant mass of the component-wise sum of the four-vectors of
  its first four leptons, times 0.001.
\<close>

theorem calc_mllll_invariant_mass:
  assumes "\<forall>e\<in>set es. aligned e \<and> 4 \<le> length (lep_pt e)"
  shows "calc_mllll (map lep_pt es) (map lep_eta es) (map lep_phi es) (map lep_E es)
       = Inr (map invariantMass es)"
  using assms by (simp add: calc_mllll_map)

theorem calc_mllll_invariant_mass_witness:
  "aligned (load entry_2e2mu) \<and> 4 \<le> length (lep_pt (load entry_2e2mu))
   \<and> calc_mllll (map lep_pt [load entry_2e2mu]) (map lep_eta [load entry_2e2mu])
        (map lep_phi [load entry_2e2mu]) (map lep_E [load entry_2e2mu]) = Inr [2 / 125]"
  using calc_mllll_invariant_mass [of "[load entry_2e2mu]"]
  by (simp add: entry_2e2mu_def load_mk_entry_simps aligned_def invariantMass_def
      invariant_mass_def four_momentum_sum_def)

text \<open>
  Claim C5. In an event with at least four leptons, reordering the leptons after the
  fourth by any permutation leaves the result of \<open>calc_mllll\<close> unchanged, whatever the
  other events of the batch are.
\<close>

theorem calc_mllll_reorder_tail:
  assumes "aligned e" and "4 \<le> length (lep_pt e)"
    and "mset p = mset [4..<length (lep_pt e)]"
  shows "calc_mllll (map lep_pt (es1 @ reorder_leptons p e # es2))
           (map lep_eta (es1 @ reorder_leptons p e # es2))
           (map lep_phi (es1 @ reorder_leptons p e # es2))
           (map lep_E (es1 @ reorder_leptons p e # es2))
       = calc_mllll (map lep_pt (es1 @ e # es2)) (map lep_eta (es1 @ e # es2))
           (map lep_phi (es1 @ e # es2)) (map lep_E (es1 @ e # es2))"
  using assms(1,2) aligned_reorder_leptons [OF assms(1,2), of p]
  by (simp only: calc_mllll_map)
    (simp add: invariantMass_reorder_leptons ball_Un)

theorem calc_mllll_reorder_tail_witness:
  "aligned (load entry_6lep) \<and> 4 \<le> length (lep_pt (load entry_6lep))
   \<and> mset [5, 4] = mset [4..<length (lep_pt (load entry_6lep))]
   \<and> calc_mllll (map lep_pt ([] @ reorder_leptons [5, 4] (load entry_6lep) # []))
           (map lep_eta ([] @ reorder_leptons [5, 4] (load entry_6lep) # []))
           (map lep_phi ([] @ reorder_leptons [5, 4] (load entry_6lep) # []))
           (map lep_E ([] @ reorder_leptons [5, 4] (load entry_6lep) # []))
       = calc_mllll (map lep_pt ([] @ load entry_6lep # [])) (map lep_eta ([] @ load entry_6lep # []))
           (map lep_phi ([] @ load entry_6lep # [])) (map lep_E ([] @ load entry_6lep # []))"
proof -
  have a: "aligned (load entry_6lep)"
    by (simp add: entry_6lep_def load_mk_entry_simps aligned_def)
  have l: "4 \<le> length (lep_pt (load entry_6lep))"
    by (simp add: entry_6lep_def load_mk_entry_simps)
  have "[4..<length (lep_pt (load entry_6lep))] = [4, 5]"
    by (simp add: entry_6lep_def load_mk_entry_simps upt_rec)
  then have m: "mset [5, 4] = mset [4..<length (lep_pt (load entry_6lep))]"
    by simp
  show ?thesis
    using a l m calc_mllll_reorder_tail [OF a l m, of "[]" "[]"] by simp
qed

text \<open>
  Claim C6, as the code has it. A batch holding an event with fewer than four leptons
  makes \<open>calc_mllll\<close> raise: the array library's index error when the four columns of
  every event are aligned, its broadcasting error otherwise. No mass is returned, and
  the error is not one named \<open>InsufficientLeptons\<close>.
\<close>

theorem calc_mllll_short_event_raises:
  assumes "e \<in> set es" and "length (lep_pt e) < 4"
  shows "calc_mllll (map lep_pt es) (map lep_eta es) (map lep_phi es) (map lep_E es)
       = (if \<forall>e\<in>set es. aligned e then Inl IndexError else Inl ValueError)"
  using assms by (auto simp: calc_mllll_map)

theorem calc_mllll_short_event_raises_witness:
  "load entry_3lep \<in> set [load entry_3lep] \<and> length (lep_pt (load entry_3lep)) < 4
   \<and> calc_mllll (map lep_pt [load entry_3lep]) (map lep_eta [load entry_3lep])
        (map lep_phi [load entry_3lep]) (map lep_E [load entry_3lep]) = Inl IndexError"
  using calc_mllll_short_event_raises [of "load entry_3lep" "[load entry_3lep]"]
  by (simp add: entry_3lep_def load_mk_entry_simps aligned_def)

theorem calc_mllll_short_event_counterexample:
  "calc_mllll [[3, 3, 3]] [[0, 0, 0]] [[0, 0, 0]] [[5, 5, 5]] = Inl IndexError
   \<and> calc_mllll [[3, 3, 3]] [[0, 0, 0]] [[0, 0, 0]] [[5, 5, 5]] \<noteq> Inl InsufficientLeptons"
  by (simp add: calc_mllll_def vector_zip_def zip_event_def column_def bind_err_simps)

subsection \<open>The batch reader\<close>

lemma concat_chunks: "concat (chunks k xs) = xs"
  by (induction k xs rule: chunks.induct) simp_all

lemma delivered_chunks: "sum_list (map length (chunks k xs)) = length xs"
  using concat_chunks [of k xs] length_concat [of "chunks k xs"] by simp

text \<open>Rounding to a double.\<close>

lemma round_half_even_nonneg: "0 \<le> x \<Longrightarrow> 0 \<le> round_half_even x"
  by (simp add: round_half_even_def Let_def)

lemma round_half_even_of_int: "round_half_even (of_int k) = k"
  by (simp add: round_half_even_def Let_def)

lemma fl64_nonneg: "0 \<le> x \<Longrightarrow> 0 \<le> fl64 x"
  by (simp add: fl64_def Let_def round_half_even_nonneg)

lemma fl64_binade:
  assumes "2 powi k \<le> \<bar>x\<bar>" and "\<bar>x\<bar> < 2 powi (k + 1)"
  shows "fl64 x = of_int (round_half_even (x / 2 powi (k - 52))) * 2 powi (k - 52)"
proof -
  have pos: "0 < \<bar>x\<bar>"
    using assms(1) by (smt (verit) zero_less_power_int)
  have "(2::real) powr real_of_int k = 2 powi k"
    by (rule powr_real_of_int') simp_all
  moreover have "(2::real) powr real_of_int (k + 1) = 2 powi (k + 1)"
    by (rule powr_real_of_int') simp_all
  ultimately have "\<lfloor>log 2 \<bar>x\<bar>\<rfloor> = k"
    using assms floor_log_eq_powr_iff [OF pos, of 2 k] by simp
  with pos show ?thesis
    by (simp add: fl64_def Let_def)
qed

lemma fl64_1: "fl64 1 = 1"
  using fl64_binade [of 0 1] by (simp add: round_half_even_def)

lemma fl64_2: "fl64 2 = 2"
  using fl64_binade [of 1 2] by (simp add: round_half_even_def)

lemma fl64_3: "fl64 3 = 3"
  using fl64_binade [of 1 3] by (simp add: round_half_even_def)

lemma fl64_50: "fl64 50 = 50"
  using fl64_binade [of 5 50] by (simp add: round_half_even_def)

lemma fl64_100: "fl64 100 = 100"
  using fl64_binade [of 6 100] by (simp add: round_half_even_def)

text \<open>The double nearest to one third, and three times it.\<close>

lemma fl64_third: "fl64 (6004799503160661 / 18014398509481984) = 6004799503160661 / 18014398509481984"
  using fl64_binade [of "- 2" "6004799503160661 / 18014398509481984"]
  by (simp add: round_half_even_def)

lemma fl64_three_thirds: "fl64 (3 * (6004799503160661 / 18014398509481984)) = 1"
  using fl64_binade [of "- 1" "3 * (6004799503160661 / 18014398509481984)"]
  by (simp add: round_half_even_def)

lemma regularize_entry_stop_nonneg:
  assumes "0 \<le> s"
  shows "regularize_entry_stop n s = min n (nat \<lfloor>s\<rfloor>)"
proof (cases "s \<le> real n")
  case True
  then have "\<lfloor>s\<rfloor> \<le> int n"
    by (simp add: floor_le_iff)
  then have "nat \<lfloor>s\<rfloor> \<le> n"
    by simp
  with True assms show ?thesis
    by (simp add: regularize_entry_stop_def Let_def min_def max_def)
next
  case False
  then have "int n \<le> \<lfloor>s\<rfloor>"
    by (simp add: le_floor_iff)
  with False assms show ?thesis
    by (simp add: regularize_entry_stop_def Let_def min_def max_def)
qed

lemma float_product_nonneg: "0 \<le> fraction \<Longrightarrow> 0 \<le> float_mul (float_of_int n) fraction"
  by (simp add: float_mul_def float_of_int_def fl64_nonneg)

lemma delivered_iterate:
  assumes "0 \<le> s"
  shows "sum_list (map length (iterate step tree s)) = min (length tree) (nat \<lfloor>s\<rfloor>)"
  by (simp add: iterate_def delivered_chunks regularize_entry_stop_nonneg [OF assms])

text \<open>
  Claim C7, as the code has it. With a fraction in \<open>(0, 1]\<close>, the batches that \<open>read_file\<close>
  receives from \<open>iterate\<close> hold in total the integer part of the double that Python
  computes for \<open>numevents*fraction\<close>, and never more than \<open>numevents\<close> events, whatever
  the batch size. Where that double is the exact product, as for 100 entries and the
  fraction one half, this is \<open>floor (numevents * fraction)\<close>: 50 events. Where the product
  is rounded up to an integer, as for 3 entries and the double nearest to one third, one
  event more is delivered.
\<close>

theorem iterate_delivers_rounded:
  assumes "0 < fraction" and "fraction \<le> 1"
  shows "sum_list (map length
           (iterate step tree (float_mul (float_of_int (length tree)) fraction)))
       = min (length tree) (nat \<lfloor>float_mul (float_of_int (length tree)) fraction\<rfloor>)
     \<and> (float_mul (float_of_int (length tree)) fraction = real (length tree) * fraction \<longrightarrow>
          sum_list (map length
            (iterate step tree (float_mul (float_of_int (length tree)) fraction)))
          = nat \<lfloor>real (length tree) * fraction\<rfloor>)"
proof -
  have n: "0 \<le> float_mul (float_of_int (length tree)) fraction"
    using assms(1) by (simp add: float_product_nonneg)
  have 1: "sum_list (map length
           (iterate step tree (float_mul (float_of_int (length tree)) fraction)))
       = min (length tree) (nat \<lfloor>float_mul (float_of_int (length tree)) fraction\<rfloor>)"
    by (rule delivered_iterate [OF n])
  have "real (length tree) * fraction \<le> real (length tree)"
    using assms by (simp add: mult_left_le)
  then have "\<lfloor>real (length tree) * fraction\<rfloor> \<le> int (length tree)"
    by (simp add: floor_le_iff)
  then have le: "nat \<lfloor>real (length tree) * fraction\<rfloor> \<le> length tree"
    by simp
  have 2: "float_mul (float_of_int (length tree)) fraction = real (length tree) * fraction \<longrightarrow>
          sum_list (map length
            (iterate step tree (float_mul (float_of_int (length tree)) fraction)))
          = nat \<lfloor>real (length tree) * fraction\<rfloor>"
  proof
    assume e: "float_mul (float_of_int (length tree)) fraction = real (length tree) * fraction"
    from 1 le show "sum_list (map length
            (iterate step tree (float_mul (float_of_int (length tree)) fraction)))
          = nat \<lfloor>real (length tree) * fraction\<rfloor>"
      unfolding e by simp
  qed
  from 1 2 show ?thesis
    by (rule conjI)
qed

theorem iterate_delivers_rounded_witness:
  "(0::real) < 1 / 2 \<and> (1::real) / 2 \<le> 1
   \<and> length (replicate 100 entry_2e2mu) = 100
   \<and> float_mul (float_of_int (length (replicate 100 entry_2e2mu))) (1 / 2)
       = real (length (replicate 100 entry_2e2mu)) * (1 / 2)
   \<and> sum_list (map length (iterate 30 (replicate 100 entry_2e2mu)
        (float_mul (float_of_int (length (replicate 100 entry_2e2mu))) (1 / 2)))) = 50"
  using iterate_delivers_rounded [of "1 / 2" 30 "replicate 100 entry_2e2mu"]
  by (simp add: float_mul_def float_of_int_def fl64_100 fl64_50)

theorem iterate_delivers_floor_counterexample:
  "(0::real) < 6004799503160661 / 18014398509481984
   \<and> (6004799503160661::real) / 18014398509481984 \<le> 1
   \<and> fl64 (6004799503160661 / 18014398509481984) = 6004799503160661 / 18014398509481984
   \<and> sum_list (map length (iterate 1000 [entry_2e2mu, entry_2e2mu, entry_2e2mu]
        (float_mul (float_of_int (length [entry_2e2mu, entry_2e2mu, entry_2e2mu]))
           (6004799503160661 / 18014398509481984)))) = 1
   \<and> nat \<lfloor>real (length [entry_2e2mu, entry_2e2mu, entry_2e2mu])
        * (6004799503160661 / 18014398509481984)\<rfloor> = 0"
proof -
  have "float_mul (float_of_int (length [entry_2e2mu, entry_2e2mu, entry_2e2mu]))
           (6004799503160661 / 18014398509481984) = 1"
    using fl64_three_thirds by (simp add: float_mul_def float_of_int_def fl64_3)
  moreover have "sum_list (map length (iterate 1000 [entry_2e2mu, entry_2e2mu, entry_2e2mu] 1)) = 1"
    using delivered_iterate [of 1 1000 "[entry_2e2mu, entry_2e2mu, entry_2e2mu]"] by simp
  ultimately show ?thesis
    using fl64_third by simp
qed

subsection \<open>Failures while reading\<close>

lemma sequence_err_map_Inl:
  assumes "x \<in> set xs" and "f x = Inl e"
  shows "\<exists>e'. sequence_err (map f xs) = Inl e'"
  using assms by (induction xs) (auto split: sum.splits)

text \<open>
  Claim C9. When reading a constituent sample of a category raises (the file cannot be
  opened, the metadata lookup fails, or any later step fails), reading the category
  raises, and so does \<open>get_data_from_files\<close>: no dictionary entry is produced from the
  other samples of the category.
\<close>

theorem get_data_from_files_fail_fast:
  assumes "(s, vals) \<in> set samples" and "val \<in> set vals"
    and "read_sample fs infos lumi fraction step tuple_path s val = Inl err"
  shows "(\<exists>e'. read_category fs infos lumi fraction step tuple_path s vals = Inl e')
       \<and> (\<exists>e'. get_data_from_files samples fs infos lumi fraction step tuple_path = Inl e')"
proof -
  have "\<exists>e'. sequence_err (map (read_sample fs infos lumi fraction step tuple_path s) vals) = Inl e'"
    using assms(2,3) by (rule sequence_err_map_Inl)
  then obtain e1 where c: "read_category fs infos lumi fraction step tuple_path s vals = Inl e1"
    by (auto simp: read_category_def bind_err_simps)
  define f where "f = (\<lambda>(s, vals). bind_err (read_category fs infos lumi fraction step tuple_path s vals)
            (\<lambda>frames. Inr (s, frames)))"
  have "f (s, vals) = Inl e1"
    by (simp add: f_def c bind_err_simps)
  from sequence_err_map_Inl [of "(s, vals)" samples f, OF assms(1) this]
  have "\<exists>e'. get_data_from_files samples fs infos lumi fraction step tuple_path = Inl e'"
    by (simp add: get_data_from_files_def f_def)
  with c show ?thesis by blast
qed

theorem get_data_from_files_fail_fast_witness:
  "(''data'', [''data_A'']) \<in> set [(''data'', [''data_A''])] \<and> ''data_A'' \<in> set [''data_A'']
   \<and> read_sample Map.empty Map.empty 10 1 1000 ''Input/4lep/'' ''data'' ''data_A'' = Inl FileNotFoundError
   \<and> get_data_from_files [(''data'', [''data_A''])] Map.empty Map.empty 10 1 1000 ''Input/4lep/''
       = Inl FileNotFoundError"
proof -
  have r: "read_sample Map.empty Map.empty 10 1 1000 ''Input/4lep/'' ''data'' ''data_A'' = Inl FileNotFoundError"
    by (simp add: read_sample_def fileString_def read_file_def bind_err_simps)
  have g: "get_data_from_files [(''data'', [''data_A''])] Map.empty Map.empty 10 1 1000 ''Input/4lep/''
       = Inl FileNotFoundError"
    by (simp add: get_data_from_files_def read_category_def r bind_err_simps)
  show ?thesis
    using get_data_from_files_fail_fast [of "''data''" "[''data_A'']" "[(''data'', [''data_A''])]"
        "''data_A''" Map.empty Map.empty 10 1 1000 "''Input/4lep/''" FileNotFoundError] r g
    by simp
qed

subsection \<open>The events returned by \<open>read_file\<close>\<close>

lemma sequence_err_map_Inr:
  assumes "sequence_err (map f ys) = Inr xs"
  shows "list_all2 (\<lambda>y x. f y = Inr x) ys xs"
  using assms
proof (induction ys arbitrary: xs)
  case Nil
  then show ?case by simp
next
  case (Cons y ys)
  then show ?case by (auto split: sum.splits)
qed

lemma set_mask_select: "set (mask_select xs flags) \<subseteq> set xs"
  by (auto simp: mask_select_def dest: set_zip_leftD)

lemma bind_err_Inr_iff: "bind_err r f = Inr y \<longleftrightarrow> (\<exists>x. r = Inr x \<and> f x = Inr y)"
  by (cases r) (simp_all add: bind_err_simps)

lemma apply_cuts_subset:
  assumes "apply_cuts data = Inr out"
  shows "set out \<subseteq> set data"
proof -
  from assms obtain m1 m2 where
    "out = mask_select (mask_select data (map Not m1)) (map Not m2)"
    by (auto simp: apply_cuts_def bind_err_Inr_iff Let_def)
  then show ?thesis
    using set_mask_select [of "mask_select data (map Not m1)" "map Not m2"]
      set_mask_select [of data "map Not m1"] by blast
qed

lemma zip_map_right: "zip xs (map f xs) = map (\<lambda>x. (x, f x)) xs"
  by (induction xs) simp_all

lemma set_totalWeight_calc_weight:
  "set_totalWeight data (calc_weight w data) =
     map (\<lambda>e. e\<lparr>totalWeight := Some (w * mcWeight e * scaleFactor_PILEUP e * scaleFactor_ELE e
        * scaleFactor_MUON e * scaleFactor_LepTRIGGER e)\<rparr>) data"
  by (simp add: set_totalWeight_def calc_weight_def zip_map_right comp_def)

lemma set_mllll_elem:
  assumes "e \<in> set (set_mllll data ms)"
  shows "\<exists>e0\<in>set data. \<exists>m. e = e0\<lparr>mllll := Some m\<rparr>"
  using assms by (auto simp: set_mllll_def dest: set_zip_leftD)

lemma process_batch_elem:
  assumes "process_batch xw sample data = Inr out" and "e \<in> set out"
  shows "\<exists>e0\<in>set data. \<exists>m.
     e = (if contains_str ''data'' sample then e0 else weighted (the xw) e0)\<lparr>mllll := Some m\<rparr>
     \<and> (\<not> contains_str ''data'' sample \<longrightarrow> xw \<noteq> None)"
proof -
  from assms(1) obtain d1 d2 ms where
    d1: "(if \<not> contains_str ''data'' sample
        then (case xw of None \<Rightarrow> Inl UnboundLocalError
              | Some w \<Rightarrow> Inr (set_totalWeight data (calc_weight w data)))
        else Inr data) = Inr d1"
    and d2: "apply_cuts d1 = Inr d2"
    and out: "out = set_mllll d2 ms"
    by (auto simp: process_batch_def bind_err_Inr_iff)
  from assms(2) out obtain e1 m where e1: "e1 \<in> set d2" "e = e1\<lparr>mllll := Some m\<rparr>"
    using set_mllll_elem by blast
  with d2 have e1': "e1 \<in> set d1"
    using apply_cuts_subset by blast
  show ?thesis
  proof (cases "contains_str ''data'' sample")
    case True
    with d1 have "d1 = data" by simp
    with e1 e1' True show ?thesis by auto
  next
    case False
    with d1 obtain w where w: "xw = Some w" "d1 = map (weighted w) data"
      by (auto simp: set_totalWeight_calc_weight weighted_def split: option.splits)
    with e1' obtain e0 where "e0 \<in> set data" "e1 = weighted w e0"
      by auto
    with e1 w False show ?thesis by auto
  qed
qed

lemma read_file_elem:
  assumes "read_file fs infos lumi fraction step path sample = Inr evs" and "e \<in> set evs"
  shows "if contains_str ''data'' sample then totalWeight e = None
     else (\<exists>w. get_xsec_weight infos lumi sample = Inr w
            \<and> totalWeight e = Some (w * weight_product e))"
proof -
  from assms(1) obtain tree where tree: "fs path = Some tree"
    by (auto simp: read_file_def split: option.splits)
  with assms(1) obtain xw data_all where
    xw: "(if \<not> contains_str ''data'' sample
          then bind_err (get_xsec_weight infos lumi sample) (\<lambda>w. Inr (Some w))
          else Inr None) = Inr xw"
    and seq: "sequence_err (map (\<lambda>batch. process_batch xw sample (map load batch))
                (iterate step tree (float_mul (float_of_int (length tree)) fraction))) = Inr data_all"
    and cc: "ak_concatenate data_all = Inr evs"
    by (auto simp: read_file_def bind_err_Inr_iff Let_def)
  from cc have "evs = concat data_all"
    by (auto simp: ak_concatenate_def split: if_splits)
  with assms(2) obtain out where out: "out \<in> set data_all" "e \<in> set out"
    by auto
  from sequence_err_map_Inr [OF seq] out(1)
  obtain batch where "process_batch xw sample (map load batch) = Inr out"
    by (auto simp: list_all2_conv_all_nth in_set_conv_nth)
  from process_batch_elem [OF this out(2)]
  obtain r m where e: "e = (if contains_str ''data'' sample then load r
        else weighted (the xw) (load r))\<lparr>mllll := Some m\<rparr>"
    by auto
  show ?thesis
  proof (cases "contains_str ''data'' sample")
    case True
    with e show ?thesis by (simp add: load_def entry.defs)
  next
    case False
    with xw obtain w where w: "get_xsec_weight infos lumi sample = Inr w" "xw = Some w"
      by (auto simp: bind_err_Inr_iff)
    with e False show ?thesis
      by (simp add: weighted_def weight_product_def mult.assoc)
  qed
qed

lemma prod_list_perm4:
  fixes a b c d :: real
  assumes "mset sfs = mset [a, b, c, d]"
  shows "prod_list sfs = a * b * c * d"
proof -
  have "prod_list sfs = prod_mset (mset sfs)"
    by (simp add: prod_mset_prod_list)
  also have "\<dots> = prod_mset (mset [a, b, c, d])"
    using assms by simp
  also have "\<dots> = a * b * c * d"
    by (simp add: mult.assoc)
  finally show ?thesis .
qed

text \<open>
  Claim C1. Every event that \<open>read_file\<close> returns for a simulated sample carries the
  total weight \<open>xsec_weight * mcWeight * scaleFactor_PILEUP * scaleFactor_ELE *
  scaleFactor_MUON * scaleFactor_LepTRIGGER\<close>, where \<open>xsec_weight\<close> is the value of
  \<open>get_xsec_weight\<close>; the four scale factors may be multiplied in any order.
\<close>

theorem read_file_totalWeight:
  assumes "read_file fs infos lumi fraction step path sample = Inr evs"
    and "\<not> contains_str ''data'' sample" and "e \<in> set evs"
  shows "\<exists>w. get_xsec_weight infos lumi sample = Inr w
     \<and> totalWeight e = Some (w * (mcWeight e * scaleFactor_PILEUP e * scaleFactor_ELE e
          * scaleFactor_MUON e * scaleFactor_LepTRIGGER e))
     \<and> (\<forall>sfs. mset sfs = mset [scaleFactor_PILEUP e, scaleFactor_ELE e, scaleFactor_MUON e,
            scaleFactor_LepTRIGGER e]
          \<longrightarrow> totalWeight e = Some (w * (mcWeight e * prod_list sfs)))"
proof -
  from read_file_elem [OF assms(1,3)] assms(2)
  obtain w where w: "get_xsec_weight infos lumi sample = Inr w"
    "totalWeight e = Some (w * weight_product e)"
    by auto
  have "weight_product e = mcWeight e * prod_list sfs"
    if "mset sfs = mset [scaleFactor_PILEUP e, scaleFactor_ELE e, scaleFactor_MUON e,
            scaleFactor_LepTRIGGER e]" for sfs
    using prod_list_perm4 [OF that] by (simp add: weight_product_def mult.assoc)
  with w show ?thesis
    by (auto simp: weight_product_def)
qed

subsection \<open>The result of \<open>read_file\<close> on well-formed entries\<close>

lemma weighted_simps:
  "lep_pt (weighted w e) = lep_pt e" "lep_eta (weighted w e) = lep_eta e"
  "lep_phi (weighted w e) = lep_phi e" "lep_E (weighted w e) = lep_E e"
  "lep_charge (weighted w e) = lep_charge e" "lep_type (weighted w e) = lep_type e"
  by (simp_all add: weighted_def)

lemma weighted_preserves:
  "well_formed (weighted w e) = well_formed e"
  "passes_cuts (weighted w e) = passes_cuts e"
  "invariantMass (weighted w e) = invariantMass e"
  by (simp_all add: well_formed_def passes_cuts_def aligned_def charge_sum_zero_def
      type_sum_allowed_def invariantMass_def four_momentum_sum_def weighted_simps)

lemma sequence_err_map_all_Inr:
  assumes "\<forall>x\<in>set xs. f x = Inr (g x)"
  shows "sequence_err (map f xs) = Inr (map g xs)"
  using assms by (induction xs) simp_all

lemma chunks_Nil_iff: "chunks k xs = [] \<longleftrightarrow> xs = []"
  by (cases xs) simp_all

lemma set_chunks:
  assumes "b \<in> set (chunks k xs)"
  shows "set b \<subseteq> set xs"
proof -
  have "set (concat (chunks k xs)) = set xs"
    by (simp only: concat_chunks)
  with assms show ?thesis by auto
qed

lemma cuts_and_mass:
  assumes "\<forall>e\<in>set data. well_formed e"
  shows "bind_err (apply_cuts data) (\<lambda>data.
           bind_err (calc_mllll (map lep_pt data) (map lep_eta data) (map lep_phi data)
                      (map lep_E data))
             (\<lambda>ms. Inr (set_mllll data ms)))
       = Inr (map with_mllll (filter passes_cuts data))"
proof -
  have 1: "apply_cuts data = Inr (filter passes_cuts data)"
    using assms apply_cuts_filter [of data]
    by (simp add: well_formed_def passes_cuts_def [abs_def])
  have "\<forall>e\<in>set (filter passes_cuts data). aligned e \<and> 4 \<le> length (lep_pt e)"
    using assms by (simp add: well_formed_def)
  then have 2: "calc_mllll (map lep_pt (filter passes_cuts data)) (map lep_eta (filter passes_cuts data))
        (map lep_phi (filter passes_cuts data)) (map lep_E (filter passes_cuts data))
      = Inr (map invariantMass (filter passes_cuts data))"
    by (simp add: calc_mllll_map)
  have 3: "set_mllll d (map invariantMass d) = map with_mllll d" for d
    by (simp add: set_mllll_def zip_map_right with_mllll_def [abs_def])
  show ?thesis
    by (simp only: 1 2 3 bind_err_simps)
qed

lemma process_batch_result:
  assumes "\<forall>e\<in>set data. well_formed e"
  shows "process_batch xw sample data =
     (if contains_str ''data'' sample then Inr (map with_mllll (filter passes_cuts data))
      else (case xw of
              None \<Rightarrow> Inl UnboundLocalError
            | Some w \<Rightarrow> Inr (map (\<lambda>e. with_mllll (weighted w e)) (filter passes_cuts data))))"
proof (cases "contains_str ''data'' sample")
  case True
  with cuts_and_mass [OF assms] show ?thesis
    by (simp add: process_batch_def bind_err_simps)
next
  case False
  show ?thesis
  proof (cases xw)
    case None
    with False show ?thesis
      by (simp add: process_batch_def bind_err_simps)
  next
    case (Some w)
    have wf: "\<forall>e\<in>set (map (weighted w) data). well_formed e"
      using assms by (simp add: weighted_preserves)
    have "filter passes_cuts (map (weighted w) data) = map (weighted w) (filter passes_cuts data)"
      by (simp add: filter_map comp_def weighted_preserves)
    with cuts_and_mass [OF wf] False Some show ?thesis
      by (simp add: process_batch_def bind_err_simps set_totalWeight_calc_weight
          weighted_def [symmetric, abs_def] comp_def)
  qed
qed

lemma concat_map_batches:
  "concat (map (\<lambda>b. map h (filter p (map g b))) bs) = map h (filter p (map g (concat bs)))"
  by (induction bs) simp_all

lemma read_file_result:
  assumes "fs path = Some tree" and "\<forall>r\<in>set tree. well_formed (load r)"
    and "take (entry_stop tree fraction) tree \<noteq> []"
  shows "read_file fs infos lumi fraction step path sample =
     (if contains_str ''data'' sample
      then Inr (map with_mllll (filter passes_cuts (map load (take (entry_stop tree fraction) tree))))
      else (case get_xsec_weight infos lumi sample of
              Inl err \<Rightarrow> Inl err
            | Inr w \<Rightarrow> Inr (map (\<lambda>e. with_mllll (weighted w e))
                 (filter passes_cuts (map load (take (entry_stop tree fraction) tree))))))"
proof -
  define bs where "bs = iterate step tree (float_mul (float_of_int (length tree)) fraction)"
  have bs: "bs = chunks step (take (entry_stop tree fraction) tree)"
    by (simp add: bs_def iterate_def entry_stop_def)
  have ne: "bs \<noteq> []"
    using assms(3) by (simp add: bs chunks_Nil_iff)
  have cc: "concat bs = take (entry_stop tree fraction) tree"
    by (simp add: bs concat_chunks)
  have wf: "\<forall>e\<in>set (map load b). well_formed e" if "b \<in> set bs" for b
  proof -
    from that have "set b \<subseteq> set (take (entry_stop tree fraction) tree)"
      unfolding bs by (rule set_chunks)
    also have "\<dots> \<subseteq> set tree"
      by (rule set_take_subset)
    finally show ?thesis
      using assms(2) by auto
  qed
  have seq: "sequence_err (map (\<lambda>batch. process_batch xw sample (map load batch)) bs)
      = Inr (map (\<lambda>b. map h (filter passes_cuts (map load b))) bs)"
    if "\<And>data. \<forall>e\<in>set data. well_formed e \<Longrightarrow>
          process_batch xw sample data = Inr (map h (filter passes_cuts data))" for xw h
    by (rule sequence_err_map_all_Inr) (simp add: that wf)
  have run: "bind_err (sequence_err (map (\<lambda>batch. process_batch xw sample (map load batch)) bs))
        ak_concatenate
      = Inr (map h (filter passes_cuts (map load (take (entry_stop tree fraction) tree))))"
    if "\<And>data. \<forall>e\<in>set data. well_formed e \<Longrightarrow>
          process_batch xw sample data = Inr (map h (filter passes_cuts data))" for xw h
    using ne by (simp add: seq [OF that] bind_err_simps ak_concatenate_def concat_map_batches cc)
  show ?thesis
  proof (cases "contains_str ''data'' sample")
    case True
    have "bind_err (sequence_err (map (\<lambda>batch. process_batch None sample (map load batch)) bs))
        ak_concatenate
      = Inr (map with_mllll (filter passes_cuts (map load (take (entry_stop tree fraction) tree))))"
      by (rule run) (simp add: process_batch_result True)
    with True show ?thesis
      by (simp add: read_file_def assms(1) bind_err_simps bs_def Let_def)
  next
    case False
    show ?thesis
    proof (cases "get_xsec_weight infos lumi sample")
      case (Inl err)
      with False show ?thesis
        by (simp add: read_file_def assms(1) bind_err_simps Let_def)
    next
      case (Inr w)
      have "bind_err (sequence_err (map (\<lambda>batch. process_batch (Some w) sample (map load batch)) bs))
          ak_concatenate
        = Inr (map (\<lambda>e. with_mllll (weighted w e))
            (filter passes_cuts (map load (take (entry_stop tree fraction) tree))))"
        by (rule run) (simp add: process_batch_result False)
      with False Inr show ?thesis
        by (simp add: read_file_def assms(1) bind_err_simps bs_def Let_def)
    qed
  qed
qed

subsection \<open>Runs of \<open>read_file\<close>\<close>

lemma load_mk_entry_weights:
  "mcWeight (load (mk_entry leps mc pu el mu tr)) = mc"
  "scaleFactor_PILEUP (load (mk_entry leps mc pu el mu tr)) = pu"
  "scaleFactor_ELE (load (mk_entry leps mc pu el mu tr)) = el"
  "scaleFactor_MUON (load (mk_entry leps mc pu el mu tr)) = mu"
  "scaleFactor_LepTRIGGER (load (mk_entry leps mc pu el mu tr)) = tr"
  "totalWeight (load r) = None" "mllll (load r) = None"
  by (simp_all add: load_def mk_entry_def entry.defs)

lemma not_data_llll: "\<not> contains_str ''data'' ''llll''"
  by simp

lemma data_Zdata: "contains_str ''data'' ''Zdata''"
  by simp

lemma xsec_llll: "get_xsec_weight [''llll'' \<mapsto> info_llll] 10 ''llll'' = Inr (25 / 2)"
  by (simp add: get_xsec_weight_def py_div_def info_llll_def)

lemma entry_stop_all:
  "entry_stop [a, b] 1 = 2" "entry_stop [a] 1 = 1"
  by (simp_all add: entry_stop_def float_mul_def float_of_int_def fl64_1 fl64_2
      regularize_entry_stop_def)

lemma well_formed_examples:
  "well_formed (load entry_2e2mu)" "well_formed (load entry_4mu_unbalanced)"
  by (simp_all add: well_formed_def aligned_def entry_2e2mu_def entry_4mu_unbalanced_def
      load_mk_entry_simps)

lemma passes_cuts_examples:
  "passes_cuts (load entry_2e2mu)" "\<not> passes_cuts (load entry_4mu_unbalanced)"
  by (simp_all add: passes_cuts_def charge_sum_zero_def type_sum_allowed_def entry_2e2mu_def
      entry_4mu_unbalanced_def load_mk_entry_simps)

lemma mass_2e2mu: "invariantMass (load entry_2e2mu) = 2 / 125"
  by (simp add: entry_2e2mu_def load_mk_entry_simps invariantMass_def
      invariant_mass_def four_momentum_sum_def)

lemma finished_2e2mu:
  "with_mllll (weighted (25 / 2) (load entry_2e2mu)) = selected_2e2mu"
  "with_mllll (load entry_2e2mu) = unweighted_2e2mu"
  by (simp_all add: with_mllll_def weighted_preserves mass_2e2mu selected_2e2mu_def
      unweighted_2e2mu_def, simp add: weighted_def entry_2e2mu_def load_mk_entry_weights)

lemma read_llll:
  "read_file files_llll [''llll'' \<mapsto> info_llll] 10 1 1000 ''MC/mc_363490.llll.4lep.root'' ''llll''
     = Inr [selected_2e2mu]"
proof -
  have "read_file files_llll [''llll'' \<mapsto> info_llll] 10 1 1000 ''MC/mc_363490.llll.4lep.root'' ''llll''
     = (if contains_str ''data'' ''llll''
      then Inr (map with_mllll (filter passes_cuts
             (map load (take (entry_stop [entry_4mu_unbalanced, entry_2e2mu] 1)
                [entry_4mu_unbalanced, entry_2e2mu]))))
      else (case get_xsec_weight [''llll'' \<mapsto> info_llll] 10 ''llll'' of
              Inl err \<Rightarrow> Inl err
            | Inr w \<Rightarrow> Inr (map (\<lambda>e. with_mllll (weighted w e))
                 (filter passes_cuts (map load (take (entry_stop [entry_4mu_unbalanced, entry_2e2mu] 1)
                    [entry_4mu_unbalanced, entry_2e2mu]))))))"
    by (rule read_file_result)
      (simp_all add: files_llll_def well_formed_examples entry_stop_all)
  then show ?thesis
    by (simp add: not_data_llll xsec_llll entry_stop_all passes_cuts_examples finished_2e2mu)
qed

lemma read_Zdata:
  "read_file files_Zdata infos lumi 1 1000 ''MC/mc_363490.Zdata.4lep.root'' ''Zdata''
     = Inr [unweighted_2e2mu]"
proof -
  have "read_file files_Zdata infos lumi 1 1000 ''MC/mc_363490.Zdata.4lep.root'' ''Zdata''
     = (if contains_str ''data'' ''Zdata''
      then Inr (map with_mllll (filter passes_cuts
             (map load (take (entry_stop [entry_2e2mu] 1) [entry_2e2mu]))))
      else (case get_xsec_weight infos lumi ''Zdata'' of
              Inl err \<Rightarrow> Inl err
            | Inr w \<Rightarrow> Inr (map (\<lambda>e. with_mllll (weighted w e))
                 (filter passes_cuts (map load (take (entry_stop [entry_2e2mu] 1) [entry_2e2mu]))))))"
    by (rule read_file_result)
      (simp_all add: files_Zdata_def well_formed_examples entry_stop_all)
  then show ?thesis
    by (simp add: entry_stop_all passes_cuts_examples finished_2e2mu)
qed

theorem read_file_totalWeight_witness:
  "read_file files_llll [''llll'' \<mapsto> info_llll] 10 1 1000 ''MC/mc_363490.llll.4lep.root'' ''llll''
     = Inr [selected_2e2mu]
   \<and> \<not> contains_str ''data'' ''llll'' \<and> selected_2e2mu \<in> set [selected_2e2mu]
   \<and> get_xsec_weight [''llll'' \<mapsto> info_llll] 10 ''llll'' = Inr (25 / 2)
   \<and> totalWeight selected_2e2mu = Some 25
   \<and> mset [scaleFactor_MUON selected_2e2mu, scaleFactor_LepTRIGGER selected_2e2mu,
         scaleFactor_PILEUP selected_2e2mu, scaleFactor_ELE selected_2e2mu]
     = mset [scaleFactor_PILEUP selected_2e2mu, scaleFactor_ELE selected_2e2mu,
         scaleFactor_MUON selected_2e2mu, scaleFactor_LepTRIGGER selected_2e2mu]
   \<and> totalWeight selected_2e2mu
     = Some (25 / 2 * (mcWeight selected_2e2mu
         * prod_list [scaleFactor_MUON selected_2e2mu, scaleFactor_LepTRIGGER selected_2e2mu,
             scaleFactor_PILEUP selected_2e2mu, scaleFactor_ELE selected_2e2mu]))"
  using read_file_totalWeight [OF read_llll not_data_llll, of selected_2e2mu] xsec_llll read_llll
  by (simp add: selected_2e2mu_def entry_2e2mu_def load_mk_entry_weights)

subsection \<open>The two tests for observed data\<close>

lemma fileString_MC:
  assumes "s \<noteq> ''data''" and "infos val = Some info"
  shows "fileString infos tuple_path s val
       = Inr (tuple_path @ ''MC/mc_'' @ str_int (DSID info) @ ''.'' @ val @ ''.4lep.root'')"
  using assms by (simp add: fileString_def bind_err_simps)

lemma read_file_data_independent:
  assumes "contains_str ''data'' sample"
  shows "read_file fs infos lumi fraction step path sample
       = read_file fs infos' lumi' fraction step path sample"
  using assms by (simp add: read_file_def)

lemma read_file_xsec_error:
  assumes "\<not> contains_str ''data'' sample" and "fs path = Some tree"
    and "get_xsec_weight infos lumi sample = Inl err"
  shows "read_file fs infos lumi fraction step path sample = Inl err"
  using assms by (simp add: read_file_def bind_err_simps)

text \<open>
  Claim C10. \<open>read_file\<close> attaches a total weight to the events it returns exactly when
  \<open>data\<close> does not occur in the sample identifier: on a tree of well-formed entries, of
  which at least one is read, it returns every entry that passes the cuts, with its total
  weight in the first case and without one in the second. When \<open>data\<close> occurs, the
  metadata and the luminosity are not used at all; when it does not, a failure of
  \<open>get_xsec_weight\<close> is the failure of \<open>read_file\<close>. The file name, in contrast, gets
  the simulation prefix whenever the category is not exactly \<open>data\<close>, so a simulated
  sample whose identifier contains \<open>data\<close> is read from the simulation path and left
  without weights.
\<close>

theorem read_file_weight_criterion:
  "(fs path = Some tree \<and> (\<forall>r\<in>set tree. well_formed (load r))
      \<and> take (entry_stop tree fraction) tree \<noteq> [] \<longrightarrow>
      read_file fs infos lumi fraction step path sample =
        (if contains_str ''data'' sample
         then Inr (map with_mllll
                (filter passes_cuts (map load (take (entry_stop tree fraction) tree))))
         else (case get_xsec_weight infos lumi sample of
                 Inl err \<Rightarrow> Inl err
               | Inr w \<Rightarrow> Inr (map (\<lambda>e. with_mllll (weighted w e))
                    (filter passes_cuts (map load (take (entry_stop tree fraction) tree)))))))
   \<and> (read_file fs infos lumi fraction step path sample = Inr evs \<longrightarrow>
      (\<forall>e\<in>set evs. (totalWeight e \<noteq> None) = (\<not> contains_str ''data'' sample)))
   \<and> (contains_str ''data'' sample \<longrightarrow>
        read_file fs infos lumi fraction step path sample
        = read_file fs infos' lumi' fraction step path sample)
   \<and> (\<not> contains_str ''data'' sample \<and> fs path = Some tree
        \<and> get_xsec_weight infos lumi sample = Inl err \<longrightarrow>
        read_file fs infos lumi fraction step path sample = Inl err)
   \<and> (s \<noteq> ''data'' \<and> infos sample = Some info \<longrightarrow>
        fileString infos tuple_path s sample
        = Inr (tuple_path @ ''MC/mc_'' @ str_int (DSID info) @ ''.'' @ sample @ ''.4lep.root''))
   \<and> fileString infos tuple_path ''data'' sample
        = Inr (tuple_path @ ''Data/'' @ sample @ ''.4lep.root'')"
proof (intro conjI impI ballI)
  assume "fs path = Some tree \<and> (\<forall>r\<in>set tree. well_formed (load r))
      \<and> take (entry_stop tree fraction) tree \<noteq> []"
  then show "read_file fs infos lumi fraction step path sample =
        (if contains_str ''data'' sample
         then Inr (map with_mllll
                (filter passes_cuts (map load (take (entry_stop tree fraction) tree))))
         else (case get_xsec_weight infos lumi sample of
                 Inl err \<Rightarrow> Inl err
               | Inr w \<Rightarrow> Inr (map (\<lambda>e. with_mllll (weighted w e))
                    (filter passes_cuts (map load (take (entry_stop tree fraction) tree))))))"
    by (intro read_file_result) simp_all
next
  fix e
  assume "read_file fs infos lumi fraction step path sample = Inr evs" and "e \<in> set evs"
  from read_file_elem [OF this]
  show "(totalWeight e \<noteq> None) = (\<not> contains_str ''data'' sample)"
    by (auto split: if_splits)
next
  assume "contains_str ''data'' sample"
  then show "read_file fs infos lumi fraction step path sample
        = read_file fs infos' lumi' fraction step path sample"
    by (rule read_file_data_independent)
next
  assume "\<not> contains_str ''data'' sample \<and> fs path = Some tree
        \<and> get_xsec_weight infos lumi sample = Inl err"
  then show "read_file fs infos lumi fraction step path sample = Inl err"
    by (simp add: read_file_xsec_error)
next
  assume "s \<noteq> ''data'' \<and> infos sample = Some info"
  then show "fileString infos tuple_path s sample
        = Inr (tuple_path @ ''MC/mc_'' @ str_int (DSID info) @ ''.'' @ sample @ ''.4lep.root'')"
    by (simp add: fileString_MC)
next
  show "fileString infos tuple_path ''data'' sample
        = Inr (tuple_path @ ''Data/'' @ sample @ ''.4lep.root'')"
    by (simp add: fileString_def bind_err_simps)
qed

lemma str_int_363490: "str_int 363490 = ''363490''"
  by (simp add: str_int_def str_nat.simps)

lemma xsec_missing: "get_xsec_weight Map.empty 10 ''llll'' = Inl KeyError"
  by (simp add: get_xsec_weight_def)

theorem read_file_weight_criterion_witness:
  "files_llll ''MC/mc_363490.llll.4lep.root'' = Some [entry_4mu_unbalanced, entry_2e2mu]
   \<and> well_formed (load entry_4mu_unbalanced) \<and> well_formed (load entry_2e2mu)
   \<and> take (entry_stop [entry_4mu_unbalanced, entry_2e2mu] 1) [entry_4mu_unbalanced, entry_2e2mu]
       = [entry_4mu_unbalanced, entry_2e2mu]
   \<and> \<not> contains_str ''data'' ''llll''
   \<and> get_xsec_weight [''llll'' \<mapsto> info_llll] 10 ''llll'' = Inr (25 / 2)
   \<and> read_file files_llll [''llll'' \<mapsto> info_llll] 10 1 1000 ''MC/mc_363490.llll.4lep.root'' ''llll''
       = Inr [selected_2e2mu]
   \<and> totalWeight selected_2e2mu = Some 25
   \<and> get_xsec_weight Map.empty 10 ''llll'' = Inl KeyError
   \<and> read_file files_llll Map.empty 10 1 1000 ''MC/mc_363490.llll.4lep.root'' ''llll'' = Inl KeyError
   \<and> files_Zdata ''MC/mc_363490.Zdata.4lep.root'' = Some [entry_2e2mu]
   \<and> take (entry_stop [entry_2e2mu] 1) [entry_2e2mu] = [entry_2e2mu]
   \<and> contains_str ''data'' ''Zdata''
   \<and> ''Background'' \<noteq> ''data''
   \<and> [''Zdata'' \<mapsto> info_llll] ''Zdata'' = Some info_llll
   \<and> fileString [''Zdata'' \<mapsto> info_llll] [] ''Background'' ''Zdata''
       = Inr ''MC/mc_363490.Zdata.4lep.root''
   \<and> read_file files_Zdata [''Zdata'' \<mapsto> info_llll] 10 1 1000 ''MC/mc_363490.Zdata.4lep.root'' ''Zdata''
       = Inr [unweighted_2e2mu]
   \<and> read_file files_Zdata Map.empty 0 1 1000 ''MC/mc_363490.Zdata.4lep.root'' ''Zdata''
       = Inr [unweighted_2e2mu]
   \<and> totalWeight unweighted_2e2mu = None"
proof -
  have f: "files_llll ''MC/mc_363490.llll.4lep.root'' = Some [entry_4mu_unbalanced, entry_2e2mu]"
    "files_Zdata ''MC/mc_363490.Zdata.4lep.root'' = Some [entry_2e2mu]"
    by (simp_all add: files_llll_def files_Zdata_def)
  have i: "DSID info_llll = 363490"
    by (simp add: info_llll_def)
  have t: "totalWeight selected_2e2mu = Some 25" "totalWeight unweighted_2e2mu = None"
    by (simp_all add: selected_2e2mu_def unweighted_2e2mu_def load_mk_entry_weights)
  note a = read_file_weight_criterion [where fs = files_llll and path = "''MC/mc_363490.llll.4lep.root''"
      and tree = "[entry_4mu_unbalanced, entry_2e2mu]" and fraction = 1
      and infos = "[''llll'' \<mapsto> info_llll]" and lumi = 10 and step = 1000 and sample = "''llll''"
      and evs = "[selected_2e2mu]" and infos' = Map.empty and lumi' = 0 and err = KeyError
      and s = "''Background''" and info = info_llll and tuple_path = "[]"]
  note b = read_file_weight_criterion [where fs = files_llll and path = "''MC/mc_363490.llll.4lep.root''"
      and tree = "[entry_4mu_unbalanced, entry_2e2mu]" and fraction = 1
      and infos = Map.empty and lumi = 10 and step = 1000 and sample = "''llll''"
      and evs = "[]" and infos' = Map.empty and lumi' = 0 and err = KeyError
      and s = "''Background''" and info = info_llll and tuple_path = "[]"]
  note c = read_file_weight_criterion [where fs = files_Zdata and path = "''MC/mc_363490.Zdata.4lep.root''"
      and tree = "[entry_2e2mu]" and fraction = 1
      and infos = "[''Zdata'' \<mapsto> info_llll]" and lumi = 10 and step = 1000 and sample = "''Zdata''"
      and evs = "[unweighted_2e2mu]" and infos' = Map.empty and lumi' = 0 and err = KeyError
      and s = "''Background''" and info = info_llll and tuple_path = "[]"]
  show ?thesis
    using a b c read_Zdata [of Map.empty 0]
    by (simp add: f i t well_formed_examples entry_stop_all xsec_llll xsec_missing
        passes_cuts_examples finished_2e2mu str_int_363490)
qed

subsection \<open>The exported histograms\<close>

lemma wf_hist_new: "wf_hist (TH1F_new n_bins hist_xmin hist_xmax)"
  by (simp add: wf_hist_def TH1F_new_def)

lemma wf_hist_Fill: "wf_hist h \<Longrightarrow> wf_hist (Fill h x w)"
  by (simp add: wf_hist_def Fill_def AddBinContent_def)

lemma FindBin_regular:
  assumes "wf_hist h"
  shows "(1 \<le> FindBin h x \<and> FindBin h x \<le> n_bins) = in_range x"
proof -
  have h: "nbins h = 36" "xmin h = 70" "xmax h = 180"
    using assms by (simp_all add: wf_hist_def n_bins_def hist_xmin_def hist_xmax_def)
  show ?thesis
  proof (cases "70 \<le> x \<and> x < 180")
    case True
    define y where "y = real 36 * (x - 70) / (180 - 70)"
    have f: "FindBin h x = 1 + nat \<lfloor>y\<rfloor>"
      using True by (simp add: FindBin_def h y_def)
    have "y < 36" and "0 \<le> y"
      using True by (simp_all add: y_def)
    then have "nat \<lfloor>y\<rfloor> < 36"
      by (simp add: nat_less_iff floor_less_iff)
    with True show ?thesis
      by (simp add: f in_range_def n_bins_def hist_xmin_def hist_xmax_def)
  next
    case False
    then show ?thesis
      by (auto simp: FindBin_def h in_range_def n_bins_def hist_xmin_def hist_xmax_def)
  qed
qed

lemma sum_list_bin_contents:
  "sum_list (bin_contents h) = (\<Sum>k = 1..<Suc (nbins h). contents h ! k)"
  by (simp add: bin_contents_def interv_sum_list_conv_sum_set_nat)

lemma sum_bins_AddBinContent:
  assumes "wf_hist h"
  shows "sum_list (bin_contents (AddBinContent h b w))
       = sum_list (bin_contents h) + (if 1 \<le> b \<and> b \<le> n_bins then w else 0)"
proof -
  have n: "nbins h = n_bins" and l: "length (contents h) = n_bins + 2"
    using assms by (simp_all add: wf_hist_def)
  have "(\<Sum>k = 1..<Suc n_bins. (contents h)[b := contents h ! b + w] ! k)
      = (\<Sum>k = 1..<Suc n_bins. contents h ! k + (if k = b then w else 0))"
    by (rule sum.cong) (auto simp: nth_list_update l)
  also have "\<dots> = (\<Sum>k = 1..<Suc n_bins. contents h ! k)
      + (\<Sum>k = 1..<Suc n_bins. if k = b then w else 0)"
    by (simp add: sum.distrib)
  also have "(\<Sum>k = 1..<Suc n_bins. if k = b then w else 0)
      = (if 1 \<le> b \<and> b \<le> n_bins then w else 0)"
    by (auto simp: sum.delta)
  finally show ?thesis
    by (simp add: sum_list_bin_contents AddBinContent_def n)
qed

lemma sum_bins_Fill:
  assumes "wf_hist h"
  shows "sum_list (bin_contents (Fill h x w))
       = sum_list (bin_contents h) + (if in_range x then w else 0)"
  using sum_bins_AddBinContent [OF assms, of "FindBin h x" w] FindBin_regular [OF assms, of x]
  by (simp add: Fill_def)

lemma bins_Fill_outside:
  assumes "wf_hist h" and "\<not> in_range x"
  shows "bin_contents (Fill h x w) = bin_contents h"
proof -
  have n: "nbins h = n_bins"
    using assms by (simp add: wf_hist_def)
  have "\<not> (1 \<le> FindBin h x \<and> FindBin h x \<le> n_bins)"
    using FindBin_regular [OF assms(1), of x] assms(2) by simp
  then have ne: "\<forall>k\<in>set [1..<Suc n_bins]. k \<noteq> FindBin h x"
    by auto
  have "map (\<lambda>k. (contents h)[FindBin h x := contents h ! FindBin h x + w] ! k) [1..<Suc n_bins]
      = map (\<lambda>k. contents h ! k) [1..<Suc n_bins]"
  proof (rule map_cong [OF refl])
    fix k
    assume "k \<in> set [1..<Suc n_bins]"
    with ne have "k \<noteq> FindBin h x" by blast
    then show "(contents h)[FindBin h x := contents h ! FindBin h x + w] ! k = contents h ! k"
      by simp
  qed
  then show ?thesis
    by (simp add: bin_contents_def Fill_def AddBinContent_def n)
qed

lemma sum_bins_fold_Fill:
  assumes "wf_hist h"
  shows "wf_hist (fold (\<lambda>(xi, wi) h. Fill h xi wi) ps h)
     \<and> sum_list (bin_contents (fold (\<lambda>(xi, wi) h. Fill h xi wi) ps h))
       = sum_list (bin_contents h) + sum_list (map snd (filter (\<lambda>(x, w). in_range x) ps))"
  using assms
proof (induction ps arbitrary: h)
  case Nil
  then show ?case by simp
next
  case (Cons p ps)
  obtain x w where p: "p = (x, w)" by (cases p)
  from Cons.prems have "wf_hist (Fill h x w)"
    by (rule wf_hist_Fill)
  from Cons.IH [OF this] sum_bins_Fill [OF Cons.prems, of x w]
  show ?case by (simp add: p)
qed

lemma sum_bins_new: "sum_list (bin_contents (TH1F_new n lo hi)) = 0"
proof -
  have "(\<Sum>k = 1..<Suc n. replicate (n + 2) (0::real) ! k) = 0"
    by (rule sum.neutral) (simp del: replicate.simps)
  then show ?thesis
    by (simp add: sum_list_bin_contents TH1F_new_def)
qed

lemma mc_hist_empty:
  "mc_hist [] weights = Inl TypeError" "mc_hist masses [] = Inl TypeError"
  by (simp_all add: mc_hist_def FillN_def)

lemma mc_hist_Inr:
  assumes "mc_hist masses weights = Inr h"
  shows "masses \<noteq> []" and "weights \<noteq> []"
    and "h = fold (\<lambda>(xi, wi) h. Fill h xi wi) (zip masses weights)
           (TH1F_new n_bins hist_xmin hist_xmax)"
  using assms by (auto simp: mc_hist_def FillN_def split: if_splits)

lemma mc_hist_sum:
  assumes "mc_hist masses weights = Inr h"
  shows "sum_list (bin_contents h)
     = sum_list (map snd (filter (\<lambda>(x, w). in_range x) (zip masses weights)))"
  using sum_bins_fold_Fill [OF wf_hist_new, of "zip masses weights"] mc_hist_Inr(3) [OF assms]
  by (simp add: sum_bins_new)

lemma wf_mc_hist: "mc_hist masses weights = Inr h \<Longrightarrow> wf_hist h"
  using sum_bins_fold_Fill [OF wf_hist_new, of "zip masses weights"] mc_hist_Inr(3)
  by simp

lemma np_index_less:
  assumes "in_closed_range x"
  shows "np_index n_bins hist_xmin hist_xmax x < n_bins"
proof -
  define y where "y = (x - 70) / (180 - 70) * real 36"
  have "0 \<le> y" and "y \<le> 36"
    using assms by (simp_all add: y_def in_closed_range_def hist_xmin_def hist_xmax_def)
  then have "nat \<lfloor>y\<rfloor> \<le> 36"
    by (simp add: nat_le_iff floor_le_iff)
  moreover have "np_index n_bins hist_xmin hist_xmax x
      = (if nat \<lfloor>y\<rfloor> = 36 then nat \<lfloor>y\<rfloor> - 1 else nat \<lfloor>y\<rfloor>)"
    by (simp add: np_index_def n_bins_def hist_xmin_def hist_xmax_def y_def Let_def)
  moreover have "n_bins = 36"
    by (simp add: n_bins_def)
  ultimately show ?thesis
    by (simp only: split: if_splits) auto
qed

lemma count_by_index:
  assumes "\<forall>x\<in>set xs. f x < n"
  shows "sum_list (map (\<lambda>k. length (filter (\<lambda>x. f x = k) xs)) [0..<n]) = length xs"
  using assms
proof (induction xs)
  case Nil
  then show ?case by simp
next
  case (Cons x xs)
  have "sum_list (map (\<lambda>k. length (filter (\<lambda>x. f x = k) (x # xs))) [0..<n])
      = sum_list (map (\<lambda>k. (if f x = k then 1 else 0) + length (filter (\<lambda>x. f x = k) xs)) [0..<n])"
    by (rule arg_cong [where f = sum_list]) simp
  also have "\<dots> = sum_list (map (\<lambda>k. if f x = k then 1 else 0) [0..<n])
      + sum_list (map (\<lambda>k. length (filter (\<lambda>x. f x = k) xs)) [0..<n])"
    by (simp add: sum_list_addf)
  also have "sum_list (map (\<lambda>k. if f x = k then 1 else 0) [0..<n]) = (1::nat)"
    using Cons.prems by (simp add: interv_sum_list_conv_sum_set_nat sum.delta')
  finally show ?case
    using Cons by simp
qed

lemma np_histogram_sum:
  "sum_list (np_histogram a n_bins hist_xmin hist_xmax) = length (filter in_closed_range a)"
proof -
  have "\<forall>x\<in>set (filter in_closed_range a). np_index n_bins hist_xmin hist_xmax x < n_bins"
    by (simp add: np_index_less)
  from count_by_index [OF this]
  show ?thesis
    by (simp add: np_histogram_def Let_def in_closed_range_def [abs_def])
qed

lemma length_np_histogram: "length (np_histogram a n lo hi) = n"
  by (simp add: np_histogram_def Let_def)

lemma fold_SetBinContent:
  assumes "Suc m + length cs \<le> length (contents h)"
  shows "contents (fold (\<lambda>(i, val) h. SetBinContent h (i + 1) (real val)) (enumerate m cs) h)
       = take (Suc m) (contents h) @ map real cs @ drop (Suc m + length cs) (contents h)
     \<and> nbins (fold (\<lambda>(i, val) h. SetBinContent h (i + 1) (real val)) (enumerate m cs) h) = nbins h"
  using assms
proof (induction cs arbitrary: m h)
  case Nil
  then show ?case by simp
next
  case (Cons c cs)
  define h' where "h' = SetBinContent h (m + 1) (real c)"
  have c': "contents h' = (contents h)[Suc m := real c]" and n': "nbins h' = nbins h"
    by (simp_all add: h'_def SetBinContent_def)
  have len: "Suc (Suc m) + length cs \<le> length (contents h')"
    using Cons.prems by (simp add: c')
  have t: "take (Suc (Suc m)) (contents h') = take (Suc m) (contents h) @ [real c]"
    using Cons.prems by (simp add: c' take_Suc_conv_app_nth)
  have d: "drop (Suc (Suc m) + length cs) (contents h') = drop (Suc m + length (c # cs)) (contents h)"
    by (simp add: c')
  let ?f = "\<lambda>(i, val) h. SetBinContent h (i + 1) (real val)"
  have step: "fold ?f (enumerate m (c # cs)) h = fold ?f (enumerate (Suc m) cs) h'"
    by (simp add: h'_def)
  from Cons.IH [OF len]
  have "contents (fold ?f (enumerate (Suc m) cs) h')
       = take (Suc (Suc m)) (contents h') @ map real cs @ drop (Suc (Suc m) + length cs) (contents h')"
    and "nbins (fold ?f (enumerate (Suc m) cs) h') = nbins h'"
    by blast+
  then show ?case
    unfolding step t d n' by simp
qed

lemma map_nth_upt: "Suc n \<le> length xs \<Longrightarrow> map (\<lambda>k. xs ! k) [1..<Suc n] = take n (drop 1 xs)"
  by (rule nth_equalityI) (simp_all del: upt_Suc add: nth_map_upt)

lemma contents_data_hist:
  "contents (data_hist masses)
     = 0 # map real (np_histogram masses n_bins hist_xmin hist_xmax) @ [0]"
  "nbins (data_hist masses) = n_bins"
proof -
  define cs where "cs = np_histogram masses n_bins hist_xmin hist_xmax"
  define h0 where "h0 = TH1F_new n_bins hist_xmin hist_xmax"
  have l: "length cs = n_bins"
    by (simp add: cs_def length_np_histogram)
  have c0: "contents h0 = replicate (n_bins + 2) 0" and n0: "nbins h0 = n_bins"
    by (simp_all add: h0_def TH1F_new_def)
  have "Suc 0 + length cs \<le> length (contents h0)"
    by (simp add: l c0)
  from fold_SetBinContent [OF this]
  have c: "contents (data_hist masses) = take (Suc 0) (contents h0) @ map real cs
        @ drop (Suc 0 + length cs) (contents h0)"
    and n: "nbins (data_hist masses) = n_bins"
    by (simp_all add: data_hist_def Let_def cs_def h0_def n0 [unfolded h0_def])
  have "drop (Suc n_bins) (replicate (n_bins + 2) (0::real)) = [0]"
    by (simp only: drop_replicate) simp
  moreover have "take (Suc 0) (replicate (n_bins + 2) (0::real)) = [0]"
    by simp
  ultimately have "contents (data_hist masses) = 0 # map real cs @ [0]"
    using c by (simp only: c0 l) simp
  then show "contents (data_hist masses)
     = 0 # map real (np_histogram masses n_bins hist_xmin hist_xmax) @ [0]"
    by (simp only: cs_def)
  from n show "nbins (data_hist masses) = n_bins" .
qed

lemma bin_contents_data_hist:
  "bin_contents (data_hist masses) = map real (np_histogram masses n_bins hist_xmin hist_xmax)"
proof -
  define cs where "cs = np_histogram masses n_bins hist_xmin hist_xmax"
  define h0 where "h0 = TH1F_new n_bins hist_xmin hist_xmax"
  have l: "length cs = n_bins"
    by (simp add: cs_def length_np_histogram)
  have c0: "contents h0 = replicate (n_bins + 2) 0" and n0: "nbins h0 = n_bins"
    by (simp_all add: h0_def TH1F_new_def)
  have "Suc 0 + length cs \<le> length (contents h0)"
    by (simp add: l c0)
  from fold_SetBinContent [OF this]
  have c: "contents (data_hist masses) = take (Suc 0) (contents h0) @ map real cs
        @ drop (Suc 0 + length cs) (contents h0)"
    and n: "nbins (data_hist masses) = n_bins"
    by (simp_all add: data_hist_def Let_def cs_def h0_def n0 [unfolded h0_def])
  have "Suc n_bins \<le> length (contents (data_hist masses))"
    by (simp add: c l c0)
  then have "bin_contents (data_hist masses) = take n_bins (drop 1 (contents (data_hist masses)))"
    unfolding bin_contents_def n by (rule map_nth_upt)
  also have "\<dots> = map real cs"
    by (simp add: c c0 l)
  finally show ?thesis
    by (simp add: cs_def)
qed

lemma sum_list_map_real: "sum_list (map real cs) = real (sum_list cs)"
  by (induction cs) simp_all

lemma data_hist_sum:
  "sum_list (bin_contents (data_hist masses)) = real (length (filter in_closed_range masses))"
  by (simp add: bin_contents_data_hist sum_list_map_real np_histogram_sum)

lemma data_hist_outside:
  assumes "\<not> in_closed_range x"
  shows "data_hist (x # masses) = data_hist masses"
proof -
  have "filter (\<lambda>x. hist_xmin \<le> x \<and> x \<le> hist_xmax) (x # masses)
      = filter (\<lambda>x. hist_xmin \<le> x \<and> x \<le> hist_xmax) masses"
    using assms by (simp add: in_closed_range_def)
  then have "np_histogram (x # masses) n_bins hist_xmin hist_xmax
      = np_histogram masses n_bins hist_xmin hist_xmax"
    by (simp only: np_histogram_def)
  then show ?thesis
    by (simp only: data_hist_def)
qed

text \<open>
  Every histogram written to the file is one of the two kinds, and the bins of each kind
  sum up over its own range: closed for the observed data, half-open for a simulated
  category.
\<close>

lemma mc_entry_Inr:
  assumes "mc_entry data name s = Inr (name', h)"
  shows "\<exists>events mc_x mc_weights. lookup data s = Inr events \<and> get_field mllll events = Inr mc_x
     \<and> get_field totalWeight events = Inr mc_weights \<and> mc_hist mc_x mc_weights = Inr h"
  using assms by (auto simp: mc_entry_def bind_err_Inr_iff)

lemma save_histograms_to_root_entries:
  assumes "save_histograms_to_root samples data = Inr file" and "(name, h) \<in> set file"
  shows "(\<exists>events masses. lookup data ''data'' = Inr events \<and> get_field mllll events = Inr masses
            \<and> h = data_hist masses)
       \<or> (\<exists>s events mc_x mc_weights. lookup data s = Inr events \<and> get_field mllll events = Inr mc_x
            \<and> get_field totalWeight events = Inr mc_weights \<and> mc_hist mc_x mc_weights = Inr h)"
proof -
  from assms(1) obtain events masses signal mcs where
    d: "lookup data ''data'' = Inr events" "get_field mllll events = Inr masses"
    and sg: "mc_entry data ''signal_hist'' signal_name = Inr signal"
    and ms: "sequence_err (map (\<lambda>s. mc_entry data (''mc_hist_'' @ s) s)
             (filter (\<lambda>s. s \<notin> set [''data'', signal_name]) (map fst samples))) = Inr mcs"
    and fl: "file = (''data_hist'', data_hist masses) # signal # mcs"
    by (auto simp: save_histograms_to_root_def bind_err_Inr_iff)
  from assms(2) fl consider "h = data_hist masses" | "(name, h) = signal" | "(name, h) \<in> set mcs"
    by auto
  then show ?thesis
  proof cases
    case 1
    with d show ?thesis by blast
  next
    case 2
    with sg have "mc_entry data ''signal_hist'' signal_name = Inr (name, h)"
      by simp
    from mc_entry_Inr [OF this] show ?thesis
      by blast
  next
    case 3
    from sequence_err_map_Inr [OF ms] 3
    obtain s where "mc_entry data (''mc_hist_'' @ s) s = Inr (name, h)"
      by (auto simp: list_all2_conv_all_nth in_set_conv_nth)
    from mc_entry_Inr [OF this] show ?thesis
      by blast
  qed
qed

lemma save_histograms_to_root_bin_sums:
  assumes "save_histograms_to_root samples data = Inr file" and "(name, h) \<in> set file"
  shows "(\<exists>events masses. lookup data ''data'' = Inr events \<and> get_field mllll events = Inr masses
            \<and> sum_list (bin_contents h) = real (length (filter in_closed_range masses)))
       \<or> (\<exists>s events mc_x mc_weights. lookup data s = Inr events \<and> get_field mllll events = Inr mc_x
            \<and> get_field totalWeight events = Inr mc_weights
            \<and> sum_list (bin_contents h)
                = sum_list (map snd (filter (\<lambda>(x, w). in_range x) (zip mc_x mc_weights))))"
proof -
  from save_histograms_to_root_entries [OF assms] consider
    events masses where "lookup data ''data'' = Inr events" "get_field mllll events = Inr masses"
      "h = data_hist masses"
  | s events mc_x mc_weights where "lookup data s = Inr events" "get_field mllll events = Inr mc_x"
      "get_field totalWeight events = Inr mc_weights" "mc_hist mc_x mc_weights = Inr h"
    by blast
  then show ?thesis
  proof cases
    case 1
    then have "sum_list (bin_contents h) = real (length (filter in_closed_range masses))"
      by (simp add: data_hist_sum)
    with 1 show ?thesis by blast
  next
    case 2
    from mc_hist_sum [OF 2(4)] 2(1-3) show ?thesis by blast
  qed
qed

subsection \<open>The export at a mass of exactly 180\<close>

lemma get_field_one:
  "get_field mllll [data_event_180] = Inr [180]"
  "get_field mllll [signal_event_180] = Inr [180]"
  "get_field totalWeight [signal_event_180] = Inr [1 / 10]"
  by (simp_all add: get_field_def data_event_180_def signal_event_180_def)

lemma mc_hist_180:
  "mc_hist [180] [1 / 10] = Inr (Fill (TH1F_new n_bins hist_xmin hist_xmax) 180 (1 / 10))"
  by (simp add: mc_hist_def FillN_def)

lemma save_histograms_to_root_180:
  "save_histograms_to_root samples_180 data_180
     = Inr [(''data_hist'', data_hist [180]),
            (''signal_hist'', Fill (TH1F_new n_bins hist_xmin hist_xmax) 180 (1 / 10))]"
  by (simp add: save_histograms_to_root_def mc_entry_def lookup_def samples_180_def data_180_def
      signal_name_def bind_err_simps get_field_one [unfolded signal_name_def] mc_hist_180)

lemma np_histogram_180:
  "np_histogram [180] n_bins hist_xmin hist_xmax ! 35 = 1"
  "length (np_histogram [180] n_bins hist_xmin hist_xmax) = 36"
proof -
  have "np_index n_bins hist_xmin hist_xmax 180 = 35"
    by (simp add: np_index_def n_bins_def hist_xmin_def hist_xmax_def)
  then show "np_histogram [180] n_bins hist_xmin hist_xmax ! 35 = 1"
    by (simp add: np_histogram_def hist_xmin_def hist_xmax_def)
      (simp add: n_bins_def)
  show "length (np_histogram [180] n_bins hist_xmin hist_xmax) = 36"
    by (simp add: length_np_histogram n_bins_def)
qed

lemma bin_summary_data_180: "bin_summary (data_hist [180]) = (1, 1, 0)"
proof -
  have "sum_list (bin_contents (data_hist [180])) = 1"
    by (simp add: data_hist_sum in_closed_range_def hist_xmin_def hist_xmax_def)
  moreover have "contents (data_hist [180]) ! 36 = 1"
    using np_histogram_180 by (simp add: contents_data_hist nth_append)
  moreover have "contents (data_hist [180]) ! 37 = 0"
    using np_histogram_180 by (simp add: contents_data_hist nth_append)
  ultimately show ?thesis
    by (simp add: bin_summary_def contents_data_hist(2) n_bins_def)
qed

lemma bin_summary_signal_180:
  "bin_summary (Fill (TH1F_new n_bins hist_xmin hist_xmax) 180 (1 / 10)) = (0, 0, 1 / 10)"
proof -
  let ?h = "Fill (TH1F_new n_bins hist_xmin hist_xmax) 180 (1 / 10)"
  have "\<not> in_range 180"
    by (simp add: in_range_def hist_xmax_def)
  then have "sum_list (bin_contents ?h) = 0"
    using sum_bins_Fill [OF wf_hist_new, of 180 "1 / 10"] by (simp add: sum_bins_new)
  moreover have "FindBin (TH1F_new n_bins hist_xmin hist_xmax) 180 = 37"
    by (simp add: FindBin_def TH1F_new_def n_bins_def hist_xmin_def hist_xmax_def)
  then have "contents ?h = (replicate 38 0)[37 := 1 / 10]" and "nbins ?h = 36"
    by (simp_all add: Fill_def AddBinContent_def TH1F_new_def n_bins_def)
  ultimately show ?thesis
    by (simp add: bin_summary_def)
qed

text \<open>
  Claim C8, at an input where the code departs from it. One observed event and one signal
  event, both with a mass of exactly 180, are exported. The signal histogram, filled by
  ROOT, has the event in its overflow cell and nothing in its 36 bins, as the claim says.
  The data histogram, counted by NumPy with the same binning, has the event in bin 36:
  its bins sum up to one, where the events with mass in \<open>[70, 180)\<close> number zero.
\<close>

theorem save_histograms_to_root_mass_180:
  "map_sum id (map (\<lambda>(name, h). (name, bin_summary h)))
     (save_histograms_to_root samples_180 data_180)
   = Inr [(''data_hist'', 1, 1, 0), (''signal_hist'', 0, 0, 1 / 10)]"
  by (simp add: save_histograms_to_root_180 bin_summary_data_180 bin_summary_signal_180)


end
